theory Spec2Isabelle
  imports Complex_Main "HOL-Library.Log_Nat"
begin

section \<open>Kubernetes objects read by the plugin\<close>

text \<open>
  \<open>resource.Quantity\<close> is a fixed-point decimal number whose \<open>Add\<close> and \<open>Cmp\<close> are exact
  (the library falls back to arbitrary-precision decimals when the 64-bit form would
  overflow). A quantity is therefore modelled by the rational number it denotes: CPU
  quantities count cores (\<open>100m\<close> is \<open>1/10\<close>), memory quantities count bytes. The zero value
  of the Go struct denotes \<open>0\<close>.
\<close>

type_synonym Quantity = rat

definition Quantity_Add :: "Quantity \<Rightarrow> Quantity \<Rightarrow> Quantity" where
  "Quantity_Add q y = q + y"

definition Quantity_Cmp :: "Quantity \<Rightarrow> Quantity \<Rightarrow> int" where
  "Quantity_Cmp q y = (if q < y then - 1 else if q = y then 0 else 1)"

definition Quantity_IsZero :: "Quantity \<Rightarrow> bool" where
  "Quantity_IsZero q = (q = 0)"

text \<open>
  \<open>ScaledValue\<close> rounds away from zero to the next integer at the given scale and
  returns an \<open>int64\<close>; \<open>MilliValue\<close> is \<open>ScaledValue(Milli)\<close> and \<open>Value\<close> is
  \<open>ScaledValue(0)\<close>. When the scaled value does not fit an \<open>int64\<close> the conversion of the
  library's 64-bit form (\<open>AsScaledInt64\<close>, whose overflow flag \<open>ScaledValue\<close> drops)
  yields \<open>0\<close>. Every quantity parsed from text is held in that form. A quantity that
  \<open>Add\<close> has moved to the arbitrary-precision form yields the low 64 bits instead; the
  rational model does not keep the form, and the theorems below that depend on a scaled
  value assume that it fits.
\<close>

definition int64_range :: "int \<Rightarrow> bool" where
  "int64_range i = (- (2 ^ 63) \<le> i \<and> i < 2 ^ 63)"

definition round_away :: "rat \<Rightarrow> int" where
  "round_away x = (if 0 \<le> x then \<lceil>x\<rceil> else \<lfloor>x\<rfloor>)"

definition ScaledValue :: "rat \<Rightarrow> int" where
  "ScaledValue x = (if int64_range (round_away x) then round_away x else 0)"

definition Quantity_MilliValue :: "Quantity \<Rightarrow> int" where
  "Quantity_MilliValue q = ScaledValue (q * 1000)"

definition Quantity_Value :: "Quantity \<Rightarrow> int" where
  "Quantity_Value q = ScaledValue q"

text \<open>
  \<open>corev1.ResourceList\<close> is a Go map from resource name to quantity and may be \<open>nil\<close>
  (\<open>None\<close>). Reading a key with the comma-ok form yields no value on a nil map or a
  missing key; plain indexing yields the zero quantity there.
\<close>

type_synonym ResourceList = "(string \<rightharpoonup> Quantity) option"

definition ResourceCPU :: string where
  "ResourceCPU = ''cpu''"

definition ResourceMemory :: string where
  "ResourceMemory = ''memory''"

definition lookup_ok :: "ResourceList \<Rightarrow> string \<Rightarrow> Quantity option" where
  "lookup_ok rl k = (case rl of None \<Rightarrow> None | Some m \<Rightarrow> m k)"

definition index_zero :: "ResourceList \<Rightarrow> string \<Rightarrow> Quantity" where
  "index_zero rl k = (case lookup_ok rl k of None \<Rightarrow> 0 | Some q \<Rightarrow> q)"

record ResourceRequirements =
  Limits :: ResourceList
  Requests :: ResourceList

record Container =
  Resources :: ResourceRequirements

record PodSpec =
  NodeName :: string
  Containers :: "Container list"
  InitContainers :: "Container list"

record Pod =
  Name :: string
  Namespace :: string
  Spec :: PodSpec

record NodeStatus =
  Capacity :: ResourceList
  Allocatable :: ResourceList

record Node =
  Name :: string
  Status :: NodeStatus

text \<open>An error carries its message; \<open>fmt.Errorf\<close> with \<open>%w\<close> prefixes the cause's message.\<close>

datatype error = Error string

fun Errorf_wrap :: "string \<Rightarrow> error \<Rightarrow> error" where
  "Errorf_wrap prefix (Error msg) = Error (prefix @ msg)"


section \<open>Go library functions used by the plugin\<close>

text \<open>
  An \<open>int64\<close> is modelled by the integer it holds. The functions of the plugin modelled
  here compare and convert their \<open>int64\<close> arguments but do no arithmetic on them, so no
  wrap-around arises; the theorems state the range of values they cover.
\<close>

subsection \<open>Strings and \<open>%d\<close>\<close>

definition HasSuffix :: "string \<Rightarrow> string \<Rightarrow> bool" where
  "HasSuffix s suf = (length suf \<le> length s \<and> drop (length s - length suf) s = suf)"

definition TrimSuffix :: "string \<Rightarrow> string \<Rightarrow> string" where
  "TrimSuffix s suf = (if HasSuffix s suf then take (length s - length suf) s else s)"

definition digit_char :: "int \<Rightarrow> char" where
  "digit_char d = ''0123456789'' ! nat (d mod 10)"

text \<open>The decimal digits of a non-negative integer, most significant first.\<close>

function show_digits :: "int \<Rightarrow> string" where
  "show_digits n =
     (if n < 10 then [digit_char n] else show_digits (n div 10) @ [digit_char (n mod 10)])"
  by pat_completeness auto
termination
  by (relation "measure nat") auto

declare show_digits.simps [simp del]

text \<open>\<open>fmt.Sprintf("%d", i)\<close>: the decimal digits of \<open>i\<close>, with a minus sign when negative.\<close>

definition Sprintf_d :: "int \<Rightarrow> string" where
  "Sprintf_d i = (if i < 0 then CHR ''-'' # show_digits (- i) else show_digits i)"

subsection \<open>Double-precision arithmetic\<close>

text \<open>
  A finite \<open>float64\<close> is modelled by the rational number it denotes. Every arithmetic
  result is the exact result rounded to the nearest double, ties to the even significand
  (IEEE 754 default rounding): the value is scaled so that its significand has 53 bits,
  rounded to an integer and scaled back. The model covers the normal range only; the
  plugin divides and multiplies values that come from 64-bit integers, by non-zero
  constants or by a divisor it has checked to be positive, so infinities, NaN, signed
  zero and subnormal numbers do not arise on these paths.
\<close>

type_synonym float64 = rat

definition round_half_even :: "rat \<Rightarrow> int" where
  "round_half_even x =
     (let f = \<lfloor>x\<rfloor>; d = x - of_int f
      in if d < 1 / 2 then f else if 1 / 2 < d then f + 1 else if even f then f else f + 1)"

text \<open>\<open>ilog2 x\<close> is the exponent \<open>e\<close> with \<open>2^e \<le> x < 2^(e+1)\<close>, for positive \<open>x\<close>.\<close>

definition ilog2 :: "rat \<Rightarrow> int" where
  "ilog2 x = (if 1 \<le> x then bitlen \<lfloor>x\<rfloor> - 1 else - bitlen (\<lceil>1 / x\<rceil> - 1))"

text \<open>The spacing of the doubles around a non-zero \<open>x\<close>: a double has 53 significant bits.\<close>

definition f64_ulp :: "rat \<Rightarrow> rat" where
  "f64_ulp x = 2 powi (ilog2 \<bar>x\<bar> - 52)"

definition f64_round :: "rat \<Rightarrow> float64" where
  "f64_round x =
     (if x = 0 then 0
      else of_int (round_half_even (x / f64_ulp x)) * f64_ulp x)"

definition float64_of_int :: "int \<Rightarrow> float64" where
  "float64_of_int i = f64_round (of_int i)"

definition f64_div :: "float64 \<Rightarrow> float64 \<Rightarrow> float64" where
  "f64_div a b = f64_round (a / b)"

definition f64_mul :: "float64 \<Rightarrow> float64 \<Rightarrow> float64" where
  "f64_mul a b = f64_round (a * b)"

text \<open>
  The conversion \<open>int64(f)\<close> discards the fraction (truncation toward zero). For a value
  outside the int64 range the Go specification leaves the result to the implementation;
  the model gives the value produced on amd64, the smallest int64.
\<close>

definition int64_of_float64 :: "float64 \<Rightarrow> int" where
  "int64_of_float64 x =
     (let t = (if 0 \<le> x then \<lfloor>x\<rfloor> else \<lceil>x\<rceil>)
      in if - (2 ^ 63) \<le> t \<and> t < 2 ^ 63 then t else - (2 ^ 63))"

subsection \<open>\<open>%.Nf\<close>\<close>

text \<open>
  \<open>fmt.Sprintf("%.Nf", x)\<close> prints the decimal expansion of the double \<open>x\<close> correctly
  rounded to \<open>N\<close> digits after the point, an exact tie going to the even last digit; the
  fraction always has exactly \<open>N\<close> digits, and no point is printed when \<open>N = 0\<close>.
\<close>

definition pad_zeros :: "nat \<Rightarrow> string \<Rightarrow> string" where
  "pad_zeros w s = replicate (w - length s) (CHR ''0'') @ s"

definition Sprintf_f :: "nat \<Rightarrow> float64 \<Rightarrow> string" where
  "Sprintf_f prec x =
     (let n = round_half_even (\<bar>x\<bar> * 10 ^ prec)
      in (if x < 0 then ''-'' else [])
         @ show_digits (n div 10 ^ prec)
         @ (if prec = 0 then [] else CHR ''.'' # pad_zeros prec (show_digits (n mod 10 ^ prec))))"

subsection \<open>Reading a floating-point number\<close>

text \<open>
  \<open>strconv.ParseFloat\<close> and the \<open>%f\<close> verb of \<open>fmt.Sscanf\<close> are modelled on plain decimal
  literals: an optional sign, digits, and an optional point followed by digits, with at
  least one digit overall. The value is the literal's value rounded to the nearest
  double. Literals with an exponent, hexadecimal literals, digit separators and the
  words \<open>Inf\<close> and \<open>NaN\<close> are not modelled (reading stops where a plain decimal literal
  ends), nor is a literal beyond the range of a double; the plugin's own formatters
  never print them.
\<close>

definition is_digit :: "char \<Rightarrow> bool" where
  "is_digit c = (48 \<le> (of_char c :: int) \<and> (of_char c :: int) \<le> 57)"

definition digit_val :: "char \<Rightarrow> int" where
  "digit_val c = of_char c - 48"

definition read_digits :: "string \<Rightarrow> int" where
  "read_digits ds = fold (\<lambda>c n. 10 * n + digit_val c) ds 0"

definition is_sign :: "char \<Rightarrow> bool" where
  "is_sign c = (c = CHR ''+'' \<or> c = CHR ''-'')"

text \<open>
  \<open>float_token s\<close> splits \<open>s\<close> into sign, integer digits, fraction digits (\<open>None\<close> when
  there is no point) and the unread rest, accepting characters greedily as the scanner
  does.
\<close>

definition float_token :: "string \<Rightarrow> string \<times> string \<times> string option \<times> string" where
  "float_token s =
     (let sg = takeWhile is_sign (take 1 s);
          s1 = drop (length sg) s;
          ip = takeWhile is_digit s1;
          s2 = drop (length ip) s1
      in if take 1 s2 = ''.''
         then (let fp = takeWhile is_digit (drop 1 s2)
               in (sg, ip, Some fp, drop (1 + length fp) s2))
         else (sg, ip, None, s2))"

definition literal_value :: "string \<Rightarrow> string \<Rightarrow> string option \<Rightarrow> float64 option" where
  "literal_value sg ip fp =
     (let fd = (case fp of None \<Rightarrow> [] | Some ds \<Rightarrow> ds)
      in if ip = [] \<and> fd = [] then None
         else (let v = (of_int (read_digits ip) :: rat) + of_int (read_digits fd) / 10 ^ length fd
               in Some (f64_round (if sg = ''-'' then - v else v))))"


text \<open>
  \<open>fmt.Sscanf(s, "%f...", &value)\<close> with \<open>value\<close> initially \<open>0\<close>, its error ignored: leading
  blanks are skipped, the longest literal prefix is read and converted, and \<open>value\<close>
  keeps \<open>0\<close> when the conversion fails. Text after the literal only decides the error
  that the callers discard.
\<close>

definition is_blank :: "char \<Rightarrow> bool" where
  "is_blank c = (c = CHR '' '' \<or> c = CHR 0x09 \<or> c = CHR 0x0B \<or> c = CHR 0x0C \<or> c = CHR 0x0D)"

definition Sscanf_f :: "string \<Rightarrow> float64" where
  "Sscanf_f s =
     (case float_token (dropWhile is_blank s) of (sg, ip, fp, rest) \<Rightarrow>
        (case literal_value sg ip fp of None \<Rightarrow> 0 | Some v \<Rightarrow> v))"


section \<open>Aggregation of pod resources by node and node percentages (pkg/nodes.go)\<close>

record NodeAggregatedResources =
  NodeName :: string
  CPURequest :: Quantity
  CPULimit :: Quantity
  MemoryRequest :: Quantity
  MemoryLimit :: Quantity

text \<open>
  The body of the loop over \<open>pod.Spec.Containers\<close>, acting on the node's entry: every
  request and limit that is present is added to the entry's running total.
\<close>

definition add_container :: "Container \<Rightarrow> NodeAggregatedResources \<Rightarrow> NodeAggregatedResources" where
  "add_container container r =
     (let r1 = (if Requests (Resources container) \<noteq> None then
                  (let ra = (case lookup_ok (Requests (Resources container)) ResourceCPU of
                               Some cpu \<Rightarrow> r\<lparr>CPURequest := Quantity_Add (CPURequest r) cpu\<rparr>
                             | None \<Rightarrow> r)
                   in case lookup_ok (Requests (Resources container)) ResourceMemory of
                        Some memory \<Rightarrow> ra\<lparr>MemoryRequest := Quantity_Add (MemoryRequest ra) memory\<rparr>
                      | None \<Rightarrow> ra)
                else r)
      in if Limits (Resources container) \<noteq> None then
           (let rb = (case lookup_ok (Limits (Resources container)) ResourceCPU of
                        Some cpu \<Rightarrow> r1\<lparr>CPULimit := Quantity_Add (CPULimit r1) cpu\<rparr>
                      | None \<Rightarrow> r1)
            in case lookup_ok (Limits (Resources container)) ResourceMemory of
                 Some memory \<Rightarrow> rb\<lparr>MemoryLimit := Quantity_Add (MemoryLimit rb) memory\<rparr>
               | None \<Rightarrow> rb)
         else r1)"

text \<open>
  The body of the loop over \<open>pod.Spec.InitContainers\<close>: an init container's request
  replaces the entry's running request total when it compares greater (\<open>Cmp > 0\<close>).
\<close>

definition max_init_container :: "Container \<Rightarrow> NodeAggregatedResources \<Rightarrow> NodeAggregatedResources" where
  "max_init_container container r =
     (if Requests (Resources container) \<noteq> None then
        (let ra = (case lookup_ok (Requests (Resources container)) ResourceCPU of
                     Some cpu \<Rightarrow> if Quantity_Cmp cpu (CPURequest r) > 0 then r\<lparr>CPURequest := cpu\<rparr> else r
                   | None \<Rightarrow> r)
         in case lookup_ok (Requests (Resources container)) ResourceMemory of
              Some memory \<Rightarrow>
                if Quantity_Cmp memory (MemoryRequest ra) > 0 then ra\<lparr>MemoryRequest := memory\<rparr> else ra
            | None \<Rightarrow> ra)
      else r)"

text \<open>
  One iteration of the loop over \<open>podList.Items\<close>: a pod without a node is skipped, a
  node seen for the first time gets a fresh entry (all quantities zero), then the regular
  and the init containers are folded into the entry, in this order.
\<close>

definition aggregate_pod ::
  "Pod \<Rightarrow> (string \<rightharpoonup> NodeAggregatedResources) \<Rightarrow> (string \<rightharpoonup> NodeAggregatedResources)" where
  "aggregate_pod pod nodeResources =
     (if PodSpec.NodeName (Spec pod) = [] then nodeResources
      else
        (let entry = (case nodeResources (PodSpec.NodeName (Spec pod)) of
                        None \<Rightarrow> \<lparr>NodeAggregatedResources.NodeName = PodSpec.NodeName (Spec pod), CPURequest = 0, CPULimit = 0,
                                  MemoryRequest = 0, MemoryLimit = 0\<rparr>
                      | Some e \<Rightarrow> e);
             entry1 = fold add_container (Containers (Spec pod)) entry;
             entry2 = fold max_init_container (InitContainers (Spec pod)) entry1
         in nodeResources(PodSpec.NodeName (Spec pod) \<mapsto> entry2)))"

text \<open>
  \<open>AggregatePodResourcesByNode\<close> lists the pods of all namespaces through the client and
  folds them into a fresh map. The outcome of the client's \<open>List\<close> call is the argument:
  either the error it returned or the items in the order the server sent them.
\<close>

definition AggregatePodResourcesByNode ::
  "error + Pod list \<Rightarrow> error + (string \<rightharpoonup> NodeAggregatedResources)" where
  "AggregatePodResourcesByNode listed =
     (case listed of
        Inl err \<Rightarrow> Inl (Errorf_wrap ''failed to fetch pods: '' err)
      | Inr items \<Rightarrow> Inr (fold aggregate_pod items Map.empty))"

text \<open>
  \<open>CalculateNodePercentages\<close>: the reference totals are read from \<open>Capacity\<close> or
  \<open>Allocatable\<close> by plain indexing, so an absent entry is the zero quantity.
\<close>

definition CalculateNodePercentages :: "Node \<Rightarrow> int \<Rightarrow> int \<Rightarrow> bool \<Rightarrow> string \<times> string" where
  "CalculateNodePercentages node cpuUsageMilli memoryUsageBytes showCapacity =
     (let cpuTotal = (if showCapacity then index_zero (Capacity (Status node)) ResourceCPU
                      else index_zero (Allocatable (Status node)) ResourceCPU);
          memoryTotal = (if showCapacity then index_zero (Capacity (Status node)) ResourceMemory
                         else index_zero (Allocatable (Status node)) ResourceMemory);
          cpuPercent =
            (if \<not> Quantity_IsZero cpuTotal then
               (let cpuTotalMilli = Quantity_MilliValue cpuTotal
                in if cpuTotalMilli > 0 then
                     (let percent = f64_mul (f64_div (float64_of_int cpuUsageMilli)
                                                     (float64_of_int cpuTotalMilli)) 100
                      in Sprintf_f 0 percent @ ''%'')
                   else ''0%'')
             else ''-'');
          memoryPercent =
            (if \<not> Quantity_IsZero memoryTotal then
               (let memoryTotalBytes = Quantity_Value memoryTotal
                in if memoryTotalBytes > 0 then
                     (let percent = f64_mul (f64_div (float64_of_int memoryUsageBytes)
                                                     (float64_of_int memoryTotalBytes)) 100
                      in Sprintf_f 0 percent @ ''%'')
                   else ''0%'')
             else ''-'')
      in (cpuPercent, memoryPercent))"


section \<open>Formatting usage metrics (pkg/metrics.go)\<close>

record PodMetrics =
  Name :: string
  Namespace :: string
  CPU :: string
  Memory :: string

record NodeMetrics =
  Name :: string
  CPU :: string
  CPUPercent :: string
  Memory :: string
  MemoryPercent :: string

definition formatCPU :: "int \<Rightarrow> string" where
  "formatCPU millicores =
     (if millicores = 0 then ''0''
      else if millicores < 1000 then Sprintf_d millicores @ ''m''
      else (let cores = f64_div (float64_of_int millicores) 1000
            in if cores = float64_of_int (int64_of_float64 cores) then Sprintf_f 0 cores
               else Sprintf_f 2 cores))"

definition KB :: int where "KB = 1024"
definition MB :: int where "MB = KB * 1024"
definition GB :: int where "GB = MB * 1024"

definition formatMemory :: "int \<Rightarrow> string" where
  "formatMemory bytes =
     (if bytes = 0 then ''0''
      else if bytes \<ge> GB then Sprintf_f 2 (f64_div (float64_of_int bytes) (float64_of_int GB)) @ ''Gi''
      else if bytes \<ge> MB then Sprintf_f 2 (f64_div (float64_of_int bytes) (float64_of_int MB)) @ ''Mi''
      else if bytes \<ge> KB then Sprintf_f 2 (f64_div (float64_of_int bytes) (float64_of_int KB)) @ ''Ki''
      else Sprintf_d bytes @ ''B'')"


section \<open>Pod requests and limits (pkg/resources.go)\<close>

record PodResources =
  Name :: string
  Namespace :: string
  CPURequest :: string
  CPULimit :: string
  MemoryRequest :: Quantity
  MemoryLimit :: Quantity
  MemoryRequestStr :: string
  MemoryLimitStr :: string

text \<open>
  \<open>FormatResourceQuantity\<close>. The canonical text of a quantity, \<open>q.String()\<close>, depends on
  the notation the quantity was written in, which the rational model does not keep; it is
  the parameter \<open>qString\<close>.
\<close>

definition FormatResourceQuantity :: "(Quantity \<Rightarrow> string) \<Rightarrow> Quantity \<Rightarrow> bool \<Rightarrow> string" where
  "FormatResourceQuantity qString q isCPU =
     (if Quantity_IsZero q then ''-''
      else if isCPU then
        (let millicores = Quantity_MilliValue q
         in if millicores = 0 then ''0m'' else Sprintf_d millicores @ ''m'')
      else qString q)"



text \<open>The four running totals of one pod in \<open>GetPodResources\<close>, initially zero.\<close>

record PodTotals =
  totalCPURequest :: Quantity
  totalCPULimit :: Quantity
  totalMemoryRequest :: Quantity
  totalMemoryLimit :: Quantity

definition pod_add_container :: "Container \<Rightarrow> PodTotals \<Rightarrow> PodTotals" where
  "pod_add_container container t =
     (let t1 = (if Requests (Resources container) \<noteq> None then
                  (let ta = (case lookup_ok (Requests (Resources container)) ResourceCPU of
                               Some cpu \<Rightarrow> t\<lparr>totalCPURequest := Quantity_Add (totalCPURequest t) cpu\<rparr>
                             | None \<Rightarrow> t)
                   in case lookup_ok (Requests (Resources container)) ResourceMemory of
                        Some memory \<Rightarrow>
                          ta\<lparr>totalMemoryRequest := Quantity_Add (totalMemoryRequest ta) memory\<rparr>
                      | None \<Rightarrow> ta)
                else t)
      in if Limits (Resources container) \<noteq> None then
           (let tb = (case lookup_ok (Limits (Resources container)) ResourceCPU of
                        Some cpu \<Rightarrow> t1\<lparr>totalCPULimit := Quantity_Add (totalCPULimit t1) cpu\<rparr>
                      | None \<Rightarrow> t1)
            in case lookup_ok (Limits (Resources container)) ResourceMemory of
                 Some memory \<Rightarrow> tb\<lparr>totalMemoryLimit := Quantity_Add (totalMemoryLimit tb) memory\<rparr>
               | None \<Rightarrow> tb)
         else t1)"

definition pod_max_init_container :: "Container \<Rightarrow> PodTotals \<Rightarrow> PodTotals" where
  "pod_max_init_container container t =
     (if Requests (Resources container) \<noteq> None then
        (let ta = (case lookup_ok (Requests (Resources container)) ResourceCPU of
                     Some cpu \<Rightarrow>
                       if Quantity_Cmp cpu (totalCPURequest t) > 0 then t\<lparr>totalCPURequest := cpu\<rparr> else t
                   | None \<Rightarrow> t)
         in case lookup_ok (Requests (Resources container)) ResourceMemory of
              Some memory \<Rightarrow>
                if Quantity_Cmp memory (totalMemoryRequest ta) > 0
                then ta\<lparr>totalMemoryRequest := memory\<rparr> else ta
            | None \<Rightarrow> ta)
      else t)"

definition pod_totals :: "Pod \<Rightarrow> PodTotals" where
  "pod_totals pod =
     fold pod_max_init_container (InitContainers (Spec pod))
       (fold pod_add_container (Containers (Spec pod))
          \<lparr>totalCPURequest = 0, totalCPULimit = 0, totalMemoryRequest = 0, totalMemoryLimit = 0\<rparr>)"

text \<open>
  \<open>GetPodResources\<close>: the argument \<open>listed\<close> is the outcome of the client's \<open>List\<close> call
  (namespace and selectors only shape that call); a non-empty \<open>podNames\<close> keeps the pods
  with one of these names.
\<close>

definition GetPodResources ::
  "(Quantity \<Rightarrow> string) \<Rightarrow> error + Pod list \<Rightarrow> string list \<Rightarrow> error + PodResources list" where
  "GetPodResources qString listed podNames =
     (case listed of
        Inl err \<Rightarrow> Inl (Errorf_wrap ''failed to fetch pods: '' err)
      | Inr items \<Rightarrow>
          (let items1 = (if length podNames > 0 then filter (\<lambda>pod. Pod.Name pod \<in> set podNames) items
                         else items)
           in Inr (map (\<lambda>pod.
                 (let t = pod_totals pod
                  in \<lparr>Name = Pod.Name pod,
                      Namespace = Pod.Namespace pod,
                      CPURequest = FormatResourceQuantity qString (totalCPURequest t) True,
                      CPULimit = FormatResourceQuantity qString (totalCPULimit t) True,
                      MemoryRequest = totalMemoryRequest t,
                      MemoryLimit = totalMemoryLimit t,
                      MemoryRequestStr = FormatResourceQuantity qString (totalMemoryRequest t) False,
                      MemoryLimitStr = FormatResourceQuantity qString (totalMemoryLimit t) False\<rparr>))
                 items1)))"


section \<open>Combining pod metrics and resources (cmd/top.go)\<close>

record CombinedPodData =
  Name :: string
  CPUUsage :: string
  CPURequest :: string
  CPULimit :: string
  MemoryUsage :: string
  MemoryRequest :: string
  MemoryLimit :: string










text \<open>The parsers behind \<open>--sort-by\<close>.\<close>

definition parseCPUValue :: "string \<Rightarrow> float64" where
  "parseCPUValue cpuStr =
     (if cpuStr = [] \<or> cpuStr = ''-'' \<or> cpuStr = ''<unknown>'' then 0
      else Sscanf_f (TrimSuffix cpuStr ''m''))"

definition parseMemoryValue :: "string \<Rightarrow> int" where
  "parseMemoryValue memStr =
     (if memStr = [] \<or> memStr = ''-'' \<or> memStr = ''<unknown>'' then 0
      else if HasSuffix memStr ''Gi'' then
        int64_of_float64 (f64_mul (f64_mul (f64_mul (Sscanf_f memStr) 1024) 1024) 1024)
      else if HasSuffix memStr ''Mi'' then
        int64_of_float64 (f64_mul (f64_mul (Sscanf_f memStr) 1024) 1024)
      else if HasSuffix memStr ''Ki'' then
        int64_of_float64 (f64_mul (Sscanf_f memStr) 1024)
      else 0)"


section \<open>Combining node metrics and resources (cmd/node.go)\<close>

record CombinedNodeData =
  Name :: string
  CPUUsage :: string
  CPUPercent :: string
  CPURequest :: string
  CPULimit :: string
  MemoryUsage :: string
  MemoryPercent :: string
  MemoryRequest :: string
  MemoryLimit :: string







section \<open>Notions of the specification\<close>

text \<open>A pod is scheduled when it has been assigned to a node.\<close>

definition scheduled :: "Pod \<Rightarrow> bool" where
  "scheduled pod = (PodSpec.NodeName (Spec pod) \<noteq> [])"

text \<open>
  The requests (limits) that the containers of a list declare for a resource kind, in
  order; a container that declares none contributes no element.
\<close>

definition container_requests :: "string \<Rightarrow> Container list \<Rightarrow> Quantity list" where
  "container_requests k cs = List.map_filter (\<lambda>c. lookup_ok (Requests (Resources c)) k) cs"

definition container_limits :: "string \<Rightarrow> Container list \<Rightarrow> Quantity list" where
  "container_limits k cs = List.map_filter (\<lambda>c. lookup_ok (Limits (Resources c)) k) cs"

text \<open>
  The effective request of a pod as the specification words it: the larger of the sum of
  the regular containers' requests and the largest init-container request. The limit of
  a pod is the sum over its regular containers.
\<close>

definition effective_request :: "string \<Rightarrow> Pod \<Rightarrow> Quantity" where
  "effective_request k pod =
     Max (insert (sum_list (container_requests k (Containers (Spec pod))))
                 (set (container_requests k (InitContainers (Spec pod)))))"

definition summed_limit :: "string \<Rightarrow> Pod \<Rightarrow> Quantity" where
  "summed_limit k pod = sum_list (container_limits k (Containers (Spec pod)))"

text \<open>
  What the specification asks \<open>GetPodResources\<close> to report for a pod, and which pods a
  list of requested names selects (all of them when the list is empty).
\<close>

definition expected_pod_resources :: "(Quantity \<Rightarrow> string) \<Rightarrow> Pod \<Rightarrow> PodResources" where
  "expected_pod_resources qString pod =
     \<lparr>PodResources.Name = Pod.Name pod,
      Namespace = Pod.Namespace pod,
      CPURequest = FormatResourceQuantity qString (effective_request ResourceCPU pod) True,
      CPULimit = FormatResourceQuantity qString (summed_limit ResourceCPU pod) True,
      MemoryRequest = effective_request ResourceMemory pod,
      MemoryLimit = summed_limit ResourceMemory pod,
      MemoryRequestStr = FormatResourceQuantity qString (effective_request ResourceMemory pod) False,
      MemoryLimitStr = FormatResourceQuantity qString (summed_limit ResourceMemory pod) False\<rparr>"

definition name_selected :: "string list \<Rightarrow> Pod \<Rightarrow> bool" where
  "name_selected podNames pod = (podNames = [] \<or> Pod.Name pod \<in> set podNames)"

text \<open>The aggregate of a node that holds a single pod: the pod's own requests and limits.\<close>

definition single_pod_aggregate :: "Pod \<Rightarrow> NodeAggregatedResources" where
  "single_pod_aggregate pod =
     \<lparr>NodeAggregatedResources.NodeName = PodSpec.NodeName (Spec pod),
      CPURequest = effective_request ResourceCPU pod,
      CPULimit = summed_limit ResourceCPU pod,
      MemoryRequest = effective_request ResourceMemory pod,
      MemoryLimit = summed_limit ResourceMemory pod\<rparr>"

text \<open>
  A number of hundredths \<open>n\<close> written with exactly two decimal places: the integer part,
  a point and two digits.
\<close>

definition two_decimals :: "int \<Rightarrow> string" where
  "two_decimals n =
     show_digits (n div 100) @ ''.'' @ [digit_char (n mod 100 div 10), digit_char (n mod 10)]"

text \<open>The CPU request that an aggregation result records for a node, if any.\<close>

definition node_cpu_request ::
  "error + (string \<rightharpoonup> NodeAggregatedResources) \<Rightarrow> string \<Rightarrow> Quantity option" where
  "node_cpu_request res node =
     (case res of Inl err \<Rightarrow> None
      | Inr m \<Rightarrow> map_option NodeAggregatedResources.CPURequest (m node))"

text \<open>The reference totals that \<open>CalculateNodePercentages\<close> selects by the caller's flag.\<close>

definition reference_totals :: "Node \<Rightarrow> bool \<Rightarrow> ResourceList" where
  "reference_totals node showCapacity =
     (if showCapacity then Capacity (Status node) else Allocatable (Status node))"








text \<open>
  The double that \<open>CalculateNodePercentages\<close> formats,
  \<open>float64(usage) / float64(total) * 100\<close>, and the two readings of "rounded to the nearest
  whole percent": the text with the magnitude rounded to the nearest integer, a tie going
  to the even one, and the integer nearest to a rational with a tie going away from zero.
\<close>

definition percent_float64 :: "int \<Rightarrow> int \<Rightarrow> float64" where
  "percent_float64 usage reference =
     f64_mul (f64_div (float64_of_int usage) (float64_of_int reference)) 100"

definition rendered_percent :: "float64 \<Rightarrow> string" where
  "rendered_percent p =
     (if p < 0 then ''-'' else []) @ show_digits (round_half_even \<bar>p\<bar>) @ ''%''"

definition round_half_away :: "rat \<Rightarrow> int" where
  "round_half_away x = (if 0 \<le> x then \<lfloor>x + 1 / 2\<rfloor> else \<lceil>x - 1 / 2\<rceil>)"


section \<open>Example inputs\<close>

text \<open>
  The pods of the repository's aggregation tests: a pod on \<open>node1\<close> whose regular container
  requests 100m CPU and 128Mi memory and whose init container requests 500m and 512Mi; a
  pod on \<open>node1\<close> with one container requesting 200m; and a pod without a node.
\<close>

definition requests_only :: "(string \<rightharpoonup> Quantity) \<Rightarrow> Container" where
  "requests_only m = \<lparr>Resources = \<lparr>Limits = None, Requests = Some m\<rparr>\<rparr>"

definition example_pod_init :: Pod where
  "example_pod_init =
     \<lparr>Pod.Name = ''pod1'', Namespace = ''default'',
      Spec = \<lparr>PodSpec.NodeName = ''node1'',
              Containers = [requests_only [ResourceCPU \<mapsto> 1 / 10, ResourceMemory \<mapsto> 128 * 2 ^ 20]],
              InitContainers = [requests_only [ResourceCPU \<mapsto> 1 / 2, ResourceMemory \<mapsto> 512 * 2 ^ 20]]\<rparr>\<rparr>"

definition example_pod_plain :: Pod where
  "example_pod_plain =
     \<lparr>Pod.Name = ''pod2'', Namespace = ''default'',
      Spec = \<lparr>PodSpec.NodeName = ''node1'',
              Containers = [requests_only [ResourceCPU \<mapsto> 1 / 5]],
              InitContainers = []\<rparr>\<rparr>"

definition example_pod_unscheduled :: Pod where
  "example_pod_unscheduled =
     \<lparr>Pod.Name = ''pod1'', Namespace = ''default'',
      Spec = \<lparr>PodSpec.NodeName = [],
              Containers = [requests_only [ResourceCPU \<mapsto> 1 / 10]],
              InitContainers = []\<rparr>\<rparr>"

text \<open>
  The node of the percentage tests, with 4 cores and 8Gi allocatable, a node that
  reports allocatable CPU only, a node whose allocatable CPU is negative, and a node
  whose allocatable CPU, counted in milli-cores, exceeds the largest \<open>int64\<close>.
\<close>

definition example_node :: Node where
  "example_node =
     \<lparr>Node.Name = ''node1'',
      Status = \<lparr>Capacity = None,
                Allocatable = Some [ResourceCPU \<mapsto> 4, ResourceMemory \<mapsto> 8 * 2 ^ 30]\<rparr>\<rparr>"

definition example_node_cpu_only :: Node where
  "example_node_cpu_only =
     \<lparr>Node.Name = ''node1'',
      Status = \<lparr>Capacity = None, Allocatable = Some [ResourceCPU \<mapsto> 4]\<rparr>\<rparr>"

definition example_node_negative :: Node where
  "example_node_negative =
     \<lparr>Node.Name = ''node1'',
      Status = \<lparr>Capacity = None, Allocatable = Some [ResourceCPU \<mapsto> - 1]\<rparr>\<rparr>"

definition example_node_huge :: Node where
  "example_node_huge =
     \<lparr>Node.Name = ''node1'',
      Status = \<lparr>Capacity = None,
                Allocatable = Some [ResourceCPU \<mapsto> 9223372036854776]\<rparr>\<rparr>"








definition example_qString :: "Quantity \<Rightarrow> string" where
  "example_qString q = Sprintf_d (Quantity_Value q)"




section \<open>Aggregation by node: unscheduled pods and pod order\<close>

lemma aggregate_pod_unscheduled: "\<not> scheduled pod \<Longrightarrow> aggregate_pod pod m = m"
  by (simp add: aggregate_pod_def scheduled_def)

lemma dom_aggregate_pod:
  "dom (aggregate_pod pod m) =
     (if scheduled pod then insert (PodSpec.NodeName (Spec pod)) (dom m) else dom m)"
  by (simp add: aggregate_pod_def scheduled_def Let_def)

lemma dom_fold_aggregate_pod:
  "dom (fold aggregate_pod pods m) =
     dom m \<union> {PodSpec.NodeName (Spec p) | p. p \<in> set pods \<and> scheduled p}"
proof (induction pods arbitrary: m)
  case Nil
  then show ?case by simp
next
  case (Cons p ps)
  show ?case
    by (simp only: fold_simps Cons.IH dom_aggregate_pod) (auto split: if_splits)
qed

lemma fold_aggregate_pod_filter:
  "fold aggregate_pod (filter scheduled pods) m = fold aggregate_pod pods m"
  by (induction pods arbitrary: m) (simp_all add: aggregate_pod_unscheduled)

lemma example_scheduled:
  "scheduled example_pod_init" "scheduled example_pod_plain" "\<not> scheduled example_pod_unscheduled"
  by (simp_all add: scheduled_def example_pod_init_def example_pod_plain_def
        example_pod_unscheduled_def)

text \<open>
  Claim C8. A pod whose node name is empty contributes nothing to the aggregation: the
  result is the one obtained from the scheduled pods alone, and a single unscheduled pod
  yields the empty map. The result has an entry exactly for the nodes that some scheduled
  pod names, so a node without pods never has an entry.
\<close>

theorem unscheduled_pods_contribute_nothing:
  "AggregatePodResourcesByNode (Inr pods) = AggregatePodResourcesByNode (Inr (filter scheduled pods))
   \<and> (\<exists>m. AggregatePodResourcesByNode (Inr pods) = Inr m
          \<and> dom m = {PodSpec.NodeName (Spec p) | p. p \<in> set pods \<and> scheduled p})
   \<and> (\<not> scheduled pod \<longrightarrow> AggregatePodResourcesByNode (Inr [pod]) = Inr Map.empty)"
  by (simp add: AggregatePodResourcesByNode_def fold_aggregate_pod_filter dom_fold_aggregate_pod
        aggregate_pod_unscheduled)

theorem unscheduled_pods_contribute_nothing_witness:
  "\<not> scheduled example_pod_unscheduled
   \<and> AggregatePodResourcesByNode (Inr [example_pod_unscheduled]) = Inr Map.empty
   \<and> AggregatePodResourcesByNode (Inr [example_pod_unscheduled, example_pod_plain])
       = AggregatePodResourcesByNode (Inr [example_pod_plain])"
  using unscheduled_pods_contribute_nothing
          [of "[example_pod_unscheduled, example_pod_plain]" example_pod_unscheduled]
  by (simp add: example_scheduled)

text \<open>
  Claim C1 states that the per-node totals do not depend on the order of the pods. The
  code compares an init container's request with the node's running total, which already
  holds the requests of the pods processed before, so the order matters: with the
  init-container pod first the node's CPU request is 700m, with the plain pod first it
  is 500m. The sum of the two pods' effective requests is 700m.
\<close>

theorem aggregation_depends_on_pod_order:
  "node_cpu_request (AggregatePodResourcesByNode (Inr [example_pod_init, example_pod_plain])) ''node1''
     = Some (7 / 10)
   \<and> node_cpu_request (AggregatePodResourcesByNode (Inr [example_pod_plain, example_pod_init])) ''node1''
     = Some (1 / 2)
   \<and> effective_request ResourceCPU example_pod_init + effective_request ResourceCPU example_pod_plain
     = 7 / 10"
  by (simp add: node_cpu_request_def AggregatePodResourcesByNode_def aggregate_pod_def
        example_pod_init_def example_pod_plain_def requests_only_def add_container_def
        max_init_container_def lookup_ok_def ResourceCPU_def ResourceMemory_def
        Quantity_Add_def Quantity_Cmp_def Let_def effective_request_def container_requests_def
        map_filter_simps)


section \<open>The effective request of a pod\<close>

lemma lookup_ok_None [simp]: "lookup_ok None k = None"
  by (simp add: lookup_ok_def)

lemma container_requests_Nil [simp]: "container_requests k [] = []"
  by (simp add: container_requests_def map_filter_simps)

lemma container_limits_Nil [simp]: "container_limits k [] = []"
  by (simp add: container_limits_def map_filter_simps)

lemma container_requests_Cons:
  "container_requests k (c # cs) =
     (case lookup_ok (Requests (Resources c)) k of None \<Rightarrow> container_requests k cs
      | Some q \<Rightarrow> q # container_requests k cs)"
  by (simp add: container_requests_def map_filter_simps split: option.splits)

lemma container_limits_Cons:
  "container_limits k (c # cs) =
     (case lookup_ok (Limits (Resources c)) k of None \<Rightarrow> container_limits k cs
      | Some q \<Rightarrow> q # container_limits k cs)"
  by (simp add: container_limits_def map_filter_simps split: option.splits)

lemma pod_add_container_fields:
  "totalCPURequest (pod_add_container c t) =
     totalCPURequest t + sum_list (container_requests ResourceCPU [c])"
  "totalMemoryRequest (pod_add_container c t) =
     totalMemoryRequest t + sum_list (container_requests ResourceMemory [c])"
  "totalCPULimit (pod_add_container c t) =
     totalCPULimit t + sum_list (container_limits ResourceCPU [c])"
  "totalMemoryLimit (pod_add_container c t) =
     totalMemoryLimit t + sum_list (container_limits ResourceMemory [c])"
  by (auto simp: pod_add_container_def Let_def Quantity_Add_def container_requests_Cons
        container_limits_Cons split: option.splits)

lemma fold_pod_add_container:
  "totalCPURequest (fold pod_add_container cs t) =
     totalCPURequest t + sum_list (container_requests ResourceCPU cs)"
  "totalMemoryRequest (fold pod_add_container cs t) =
     totalMemoryRequest t + sum_list (container_requests ResourceMemory cs)"
  "totalCPULimit (fold pod_add_container cs t) =
     totalCPULimit t + sum_list (container_limits ResourceCPU cs)"
  "totalMemoryLimit (fold pod_add_container cs t) =
     totalMemoryLimit t + sum_list (container_limits ResourceMemory cs)"
  by (induction cs arbitrary: t)
     (auto simp: pod_add_container_fields container_requests_Cons container_limits_Cons
        split: option.splits)

lemma pod_max_init_container_fields:
  "totalCPURequest (pod_max_init_container c t) =
     fold max (container_requests ResourceCPU [c]) (totalCPURequest t)"
  "totalMemoryRequest (pod_max_init_container c t) =
     fold max (container_requests ResourceMemory [c]) (totalMemoryRequest t)"
  "totalCPULimit (pod_max_init_container c t) = totalCPULimit t"
  "totalMemoryLimit (pod_max_init_container c t) = totalMemoryLimit t"
  by (auto simp: pod_max_init_container_def Let_def Quantity_Cmp_def container_requests_Cons
        max_def split: option.splits if_splits)

lemma fold_pod_max_init_container:
  "totalCPURequest (fold pod_max_init_container cs t) =
     fold max (container_requests ResourceCPU cs) (totalCPURequest t)"
  "totalMemoryRequest (fold pod_max_init_container cs t) =
     fold max (container_requests ResourceMemory cs) (totalMemoryRequest t)"
  "totalCPULimit (fold pod_max_init_container cs t) = totalCPULimit t"
  "totalMemoryLimit (fold pod_max_init_container cs t) = totalMemoryLimit t"
  by (induction cs arbitrary: t)
     (auto simp: pod_max_init_container_fields container_requests_Cons split: option.splits)

lemma Max_insert_set_fold: "Max (insert (a::rat) (set xs)) = fold max xs a"
  using Max.set_eq_fold [of a xs] by simp

lemma pod_totals_spec:
  "pod_totals pod =
     \<lparr>totalCPURequest = effective_request ResourceCPU pod,
      totalCPULimit = summed_limit ResourceCPU pod,
      totalMemoryRequest = effective_request ResourceMemory pod,
      totalMemoryLimit = summed_limit ResourceMemory pod\<rparr>"
  by (simp add: pod_totals_def effective_request_def summed_limit_def Max_insert_set_fold
        fold_pod_add_container fold_pod_max_init_container)

lemma example_pod_init_requests:
  "effective_request ResourceCPU example_pod_init = 1 / 2"
  "effective_request ResourceMemory example_pod_init = 512 * 2 ^ 20"
  "summed_limit ResourceCPU example_pod_init = 0"
  "summed_limit ResourceMemory example_pod_init = 0"
  by (simp_all add: effective_request_def summed_limit_def example_pod_init_def
        requests_only_def container_requests_Cons container_limits_Cons lookup_ok_def
        ResourceCPU_def ResourceMemory_def)

subsection \<open>A node that holds a single pod\<close>

lemma add_container_fields:
  "NodeAggregatedResources.NodeName (add_container c r) = NodeAggregatedResources.NodeName r"
  "NodeAggregatedResources.CPURequest (add_container c r) =
     NodeAggregatedResources.CPURequest r + sum_list (container_requests ResourceCPU [c])"
  "NodeAggregatedResources.MemoryRequest (add_container c r) =
     NodeAggregatedResources.MemoryRequest r + sum_list (container_requests ResourceMemory [c])"
  "NodeAggregatedResources.CPULimit (add_container c r) =
     NodeAggregatedResources.CPULimit r + sum_list (container_limits ResourceCPU [c])"
  "NodeAggregatedResources.MemoryLimit (add_container c r) =
     NodeAggregatedResources.MemoryLimit r + sum_list (container_limits ResourceMemory [c])"
  by (auto simp: add_container_def Let_def Quantity_Add_def container_requests_Cons
        container_limits_Cons split: option.splits)

lemma fold_add_container:
  "NodeAggregatedResources.NodeName (fold add_container cs r) = NodeAggregatedResources.NodeName r"
  "NodeAggregatedResources.CPURequest (fold add_container cs r) =
     NodeAggregatedResources.CPURequest r + sum_list (container_requests ResourceCPU cs)"
  "NodeAggregatedResources.MemoryRequest (fold add_container cs r) =
     NodeAggregatedResources.MemoryRequest r + sum_list (container_requests ResourceMemory cs)"
  "NodeAggregatedResources.CPULimit (fold add_container cs r) =
     NodeAggregatedResources.CPULimit r + sum_list (container_limits ResourceCPU cs)"
  "NodeAggregatedResources.MemoryLimit (fold add_container cs r) =
     NodeAggregatedResources.MemoryLimit r + sum_list (container_limits ResourceMemory cs)"
  by (induction cs arbitrary: r)
     (auto simp: add_container_fields container_requests_Cons container_limits_Cons
        split: option.splits)

lemma max_init_container_fields:
  "NodeAggregatedResources.NodeName (max_init_container c r) = NodeAggregatedResources.NodeName r"
  "NodeAggregatedResources.CPURequest (max_init_container c r) =
     fold max (container_requests ResourceCPU [c]) (NodeAggregatedResources.CPURequest r)"
  "NodeAggregatedResources.MemoryRequest (max_init_container c r) =
     fold max (container_requests ResourceMemory [c]) (NodeAggregatedResources.MemoryRequest r)"
  "NodeAggregatedResources.CPULimit (max_init_container c r) = NodeAggregatedResources.CPULimit r"
  "NodeAggregatedResources.MemoryLimit (max_init_container c r) =
     NodeAggregatedResources.MemoryLimit r"
  by (auto simp: max_init_container_def Let_def Quantity_Cmp_def container_requests_Cons
        max_def split: option.splits if_splits)

lemma fold_max_init_container:
  "NodeAggregatedResources.NodeName (fold max_init_container cs r) =
     NodeAggregatedResources.NodeName r"
  "NodeAggregatedResources.CPURequest (fold max_init_container cs r) =
     fold max (container_requests ResourceCPU cs) (NodeAggregatedResources.CPURequest r)"
  "NodeAggregatedResources.MemoryRequest (fold max_init_container cs r) =
     fold max (container_requests ResourceMemory cs) (NodeAggregatedResources.MemoryRequest r)"
  "NodeAggregatedResources.CPULimit (fold max_init_container cs r) =
     NodeAggregatedResources.CPULimit r"
  "NodeAggregatedResources.MemoryLimit (fold max_init_container cs r) =
     NodeAggregatedResources.MemoryLimit r"
  by (induction cs arbitrary: r)
     (auto simp: max_init_container_fields container_requests_Cons split: option.splits)

lemma aggregate_single_pod:
  assumes "scheduled pod"
  shows "aggregate_pod pod Map.empty =
           [PodSpec.NodeName (Spec pod) \<mapsto> single_pod_aggregate pod]"
proof -
  define e where "e = fold max_init_container (InitContainers (Spec pod))
      (fold add_container (Containers (Spec pod))
         \<lparr>NodeAggregatedResources.NodeName = PodSpec.NodeName (Spec pod), CPURequest = 0,
            CPULimit = 0, MemoryRequest = 0, MemoryLimit = 0\<rparr>)"
  have "e = single_pod_aggregate pod"
    by (rule NodeAggregatedResources.equality)
       (simp_all add: e_def single_pod_aggregate_def fold_max_init_container fold_add_container
          effective_request_def summed_limit_def Max_insert_set_fold)
  then show ?thesis
    using assms by (simp add: aggregate_pod_def scheduled_def Let_def e_def)
qed

lemma FormatResourceQuantity_500m: "FormatResourceQuantity qString (1 / 2) True = ''500m''"
  by (simp add: FormatResourceQuantity_def Quantity_IsZero_def Quantity_MilliValue_def
        ScaledValue_def int64_range_def round_away_def Sprintf_d_def show_digits.simps
        digit_char_def)

text \<open>
  Claim C3. For every listed pod that the requested names select, \<open>GetPodResources\<close>
  reports one record, in the order of the listing, that holds for CPU and for memory the
  effective request \<open>max (sum of the regular containers' requests) (largest init-container
  request)\<close> and the limit summed over the regular containers only (the CPU figures
  formatted, the memory figures also as quantities); each pod's figures are computed from
  that pod alone. A node that holds a single pod gets the same figures from the node
  aggregation. For the pod with a regular CPU request of 100m and an init-container CPU
  request of 500m the effective CPU request is 500m.
\<close>

theorem pod_effective_request:
  "GetPodResources qString (Inr pods) podNames =
     Inr (map (expected_pod_resources qString) (filter (name_selected podNames) pods))
   \<and> (scheduled pod \<longrightarrow>
        AggregatePodResourcesByNode (Inr [pod]) =
          Inr [PodSpec.NodeName (Spec pod) \<mapsto> single_pod_aggregate pod])
   \<and> effective_request ResourceCPU example_pod_init = 1 / 2
   \<and> FormatResourceQuantity qString (effective_request ResourceCPU example_pod_init) True = ''500m''"
proof -
  have row: "(let t = pod_totals p
              in \<lparr>PodResources.Name = Pod.Name p,
                  Namespace = Pod.Namespace p,
                  CPURequest = FormatResourceQuantity qString (totalCPURequest t) True,
                  CPULimit = FormatResourceQuantity qString (totalCPULimit t) True,
                  MemoryRequest = totalMemoryRequest t,
                  MemoryLimit = totalMemoryLimit t,
                  MemoryRequestStr = FormatResourceQuantity qString (totalMemoryRequest t) False,
                  MemoryLimitStr = FormatResourceQuantity qString (totalMemoryLimit t) False\<rparr>)
             = expected_pod_resources qString p" for p
    by (simp add: pod_totals_spec expected_pod_resources_def)
  have sel: "(if length podNames > 0 then filter (\<lambda>p. Pod.Name p \<in> set podNames) pods else pods)
               = filter (name_selected podNames) pods"
    by (cases podNames) (auto intro: filter_cong simp: name_selected_def)
  have 1: "GetPodResources qString (Inr pods) podNames =
             Inr (map (expected_pod_resources qString) (filter (name_selected podNames) pods))"
    unfolding GetPodResources_def by (simp only: sum.case Let_def [of "if _ then _ else _"] sel row)
  have 2: "AggregatePodResourcesByNode (Inr [pod]) =
             Inr [PodSpec.NodeName (Spec pod) \<mapsto> single_pod_aggregate pod]"
    if "scheduled pod"
    using aggregate_single_pod [OF that] by (simp add: AggregatePodResourcesByNode_def)
  show ?thesis
    using 1 2 by (simp add: example_pod_init_requests FormatResourceQuantity_500m)
qed

theorem pod_effective_request_witness:
  "scheduled example_pod_init
   \<and> GetPodResources example_qString (Inr [example_pod_plain, example_pod_init]) [''pod1''] =
       Inr [\<lparr>PodResources.Name = ''pod1'', Namespace = ''default'', CPURequest = ''500m'',
             CPULimit = ''-'', MemoryRequest = 512 * 2 ^ 20, MemoryLimit = 0,
             MemoryRequestStr = ''536870912'', MemoryLimitStr = ''-''\<rparr>]
   \<and> map PodResources.CPURequest
         (projr (GetPodResources example_qString (Inr [example_pod_plain, example_pod_init]) []))
       = [''200m'', ''500m'']
   \<and> node_cpu_request (AggregatePodResourcesByNode (Inr [example_pod_init])) ''node1''
       = Some (1 / 2)"
proof -
  have s: "name_selected [''pod1''] example_pod_init" "\<not> name_selected [''pod1''] example_pod_plain"
    "name_selected [] example_pod_init" "name_selected [] example_pod_plain"
    by (simp_all add: name_selected_def example_pod_init_def example_pod_plain_def)
  have plain: "effective_request ResourceCPU example_pod_plain = 1 / 5"
    by (simp add: effective_request_def example_pod_plain_def requests_only_def
          container_requests_Cons lookup_ok_def ResourceCPU_def)
  have f: "FormatResourceQuantity example_qString (1 / 5) True = ''200m''"
    "FormatResourceQuantity example_qString 0 True = ''-''"
    "FormatResourceQuantity example_qString 0 False = ''-''"
    by code_simp+
  have g: "FormatResourceQuantity example_qString 536870912 False = ''536870912''"
    by (simp add: FormatResourceQuantity_def Quantity_IsZero_def example_qString_def) code_simp
  have e: "expected_pod_resources example_qString example_pod_init =
      \<lparr>PodResources.Name = ''pod1'', Namespace = ''default'', CPURequest = ''500m'',
         CPULimit = ''-'', MemoryRequest = 512 * 2 ^ 20, MemoryLimit = 0,
         MemoryRequestStr = ''536870912'', MemoryLimitStr = ''-''\<rparr>"
    unfolding expected_pod_resources_def example_pod_init_requests
    by (simp add: FormatResourceQuantity_500m f g) (simp add: example_pod_init_def)
  have c: "PodResources.CPURequest (expected_pod_resources example_qString example_pod_plain) = ''200m''"
    by (simp add: expected_pod_resources_def plain f)
  have n: "PodSpec.NodeName (Spec example_pod_init) = ''node1''"
    by (simp add: example_pod_init_def)
  have "GetPodResources example_qString (Inr [example_pod_plain, example_pod_init]) [''pod1''] =
          Inr [expected_pod_resources example_qString example_pod_init]"
    using pod_effective_request [of example_qString "[example_pod_plain, example_pod_init]"
            "[''pod1'']" example_pod_init]
    by (simp add: s)
  moreover have "GetPodResources example_qString (Inr [example_pod_plain, example_pod_init]) [] =
          Inr [expected_pod_resources example_qString example_pod_plain,
               expected_pod_resources example_qString example_pod_init]"
    using pod_effective_request [of example_qString "[example_pod_plain, example_pod_init]"
            "[]" example_pod_init]
    by (simp add: s)
  moreover have "AggregatePodResourcesByNode (Inr [example_pod_init]) =
          Inr [''node1'' \<mapsto> single_pod_aggregate example_pod_init]"
    using pod_effective_request [of example_qString "[]" "[]" example_pod_init]
    by (simp add: example_scheduled n)
  ultimately show ?thesis
    by (simp add: e c example_scheduled node_cpu_request_def single_pod_aggregate_def
          example_pod_init_requests)
qed


section \<open>Percentages without a reference total\<close>

text \<open>
  Claim C4. When the selected reference total of a resource kind is absent or zero,
  \<open>CalculateNodePercentages\<close> returns \<open>"-"\<close> for that kind, whatever the usage. The two
  kinds are decided independently: the CPU text does not depend on the memory usage nor
  the memory text on the CPU usage, so one can be \<open>"-"\<close> while the other is a percentage.
\<close>

theorem percentage_sentinel_when_total_missing:
  "(lookup_ok (reference_totals node showCapacity) ResourceCPU \<in> {None, Some 0}
      \<longrightarrow> fst (CalculateNodePercentages node cpuUsageMilli memoryUsageBytes showCapacity) = ''-'')
   \<and> (lookup_ok (reference_totals node showCapacity) ResourceMemory \<in> {None, Some 0}
      \<longrightarrow> snd (CalculateNodePercentages node cpuUsageMilli memoryUsageBytes showCapacity) = ''-'')
   \<and> fst (CalculateNodePercentages node cpuUsageMilli memoryUsageBytes showCapacity)
       = fst (CalculateNodePercentages node cpuUsageMilli otherMemoryUsage showCapacity)
   \<and> snd (CalculateNodePercentages node cpuUsageMilli memoryUsageBytes showCapacity)
       = snd (CalculateNodePercentages node otherCpuUsage memoryUsageBytes showCapacity)"
  by (auto simp: CalculateNodePercentages_def reference_totals_def index_zero_def
        Quantity_IsZero_def Let_def split: option.splits)

lemma f64_round_exact_examples:
  "f64_round 2000 = 2000" "f64_round 4000 = 4000" "f64_round (1 / 2) = 1 / 2"
  "f64_round 50 = 50"
  by code_simp+

theorem percentage_sentinel_when_total_missing_witness:
  "lookup_ok (reference_totals example_node_cpu_only False) ResourceMemory = None
   \<and> CalculateNodePercentages example_node_cpu_only 2000 (4 * 2 ^ 30) False = (''50%'', ''-'')"
proof -
  have m: "lookup_ok (reference_totals example_node_cpu_only False) ResourceMemory = None"
    by (simp add: lookup_ok_def reference_totals_def example_node_cpu_only_def
          ResourceCPU_def ResourceMemory_def)
  have c: "fst (CalculateNodePercentages example_node_cpu_only 2000 (4 * 2 ^ 30) False) = ''50%''"
    by (simp add: CalculateNodePercentages_def example_node_cpu_only_def index_zero_def
          lookup_ok_def ResourceCPU_def ResourceMemory_def Quantity_IsZero_def
          Quantity_MilliValue_def ScaledValue_def int64_range_def round_away_def Let_def
          float64_of_int_def f64_div_def
          f64_mul_def f64_round_exact_examples Sprintf_f_def round_half_even_def
          show_digits.simps digit_char_def)
  from percentage_sentinel_when_total_missing
         [of example_node_cpu_only False 2000 "4 * 2 ^ 30"] m
  have "snd (CalculateNodePercentages example_node_cpu_only 2000 (4 * 2 ^ 30) False) = ''-''"
    by simp
  with m c show ?thesis
    by (simp add: prod_eq_iff)
qed

section \<open>Properties of the arithmetic and text primitives\<close>

subsection \<open>Rounding to an integer, ties to even\<close>

lemma round_half_even_of_int [simp]: "round_half_even (of_int n) = n"
  by (simp add: round_half_even_def)

lemma round_half_even_error: "\<bar>of_int (round_half_even x) - x\<bar> \<le> 1 / 2"
proof -
  have "of_int \<lfloor>x\<rfloor> \<le> x" "x < of_int \<lfloor>x\<rfloor> + 1"
    by linarith+
  then show ?thesis
    unfolding round_half_even_def Let_def by (simp add: abs_if) linarith
qed

lemma round_half_even_tie:
  assumes "\<bar>of_int (round_half_even x) - x\<bar> = 1 / 2"
  shows "even (round_half_even x)"
proof -
  have fl: "of_int \<lfloor>x\<rfloor> \<le> x" "x < of_int \<lfloor>x\<rfloor> + 1"
    by linarith+
  show ?thesis
  proof (cases "x - of_int \<lfloor>x\<rfloor> = 1 / 2")
    case True
    then show ?thesis
      by (simp add: round_half_even_def Let_def)
  next
    case False
    with assms fl show ?thesis
      unfolding round_half_even_def Let_def by (simp add: abs_if split: if_splits) linarith+
  qed
qed

lemma round_half_even_unique:
  assumes "\<bar>x - of_int n\<bar> < 1 / 2"
  shows "round_half_even x = n"
proof -
  have "\<bar>of_int (round_half_even x) - x\<bar> \<le> 1 / 2"
    by (rule round_half_even_error)
  with assms have "\<bar>(of_int (round_half_even x) :: rat) - of_int n\<bar> < 1"
    by linarith
  then have "\<bar>round_half_even x - n\<bar> < 1"
    by (metis of_int_1 of_int_abs of_int_diff of_int_less_iff)
  then show ?thesis
    by linarith
qed

lemma round_half_even_nonneg: "0 \<le> x \<Longrightarrow> 0 \<le> round_half_even x"
  by (auto simp: round_half_even_def Let_def)

subsection \<open>The binary exponent\<close>

lemma bitlen_pos: "0 < n \<Longrightarrow> 1 \<le> bitlen n"
  using bitlen_eq_zero_iff [of n] bitlen_nonneg [of n] by linarith

lemma ilog2_bounds:
  assumes "0 < x"
  shows "2 powi ilog2 x \<le> x" and "x < 2 powi (ilog2 x + 1)"
proof -
  have "2 powi ilog2 x \<le> x \<and> x < 2 powi (ilog2 x + 1)"
  proof (cases "1 \<le> x")
    case True
    define n where "n = \<lfloor>x\<rfloor>"
    have n: "1 \<le> n" "of_int n \<le> x" "x < of_int n + 1"
      using True unfolding n_def by linarith+
    define b where "b = bitlen n"
    have b: "1 \<le> b" using n bitlen_pos [of n] by (simp add: b_def)
    have bb: "2 ^ nat (b - 1) \<le> n" "n < 2 ^ nat b"
      using bitlen_bounds [of n] n by (simp_all add: b_def)
    have e: "ilog2 x = b - 1"
      using True by (simp add: ilog2_def n_def b_def)
    have lo: "(2::rat) powi (b - 1) = of_int (2 ^ nat (b - 1))"
      using b by (simp add: power_int_nonneg_exp)
    have hi: "(2::rat) powi b = of_int (2 ^ nat b)"
      using b by (simp add: power_int_nonneg_exp)
    have "(of_int (2 ^ nat (b - 1)) :: rat) \<le> of_int n"
      using bb(1) by (simp only: of_int_le_iff)
    moreover have "(of_int n :: rat) + 1 \<le> of_int (2 ^ nat b)"
      using bb(2) by (metis of_int_1 of_int_add of_int_le_iff zless_imp_add1_zle)
    ultimately show ?thesis
      using n by (simp only: e lo hi diff_add_cancel) linarith
  next
    case False
    define y where "y = 1 / x"
    have y: "1 < y" "x = 1 / y"
      using False assms by (simp_all add: y_def)
    define m where "m = \<lceil>y\<rceil> - 1"
    have m: "1 \<le> m" "of_int m < y" "y \<le> of_int m + 1"
      using y(1) unfolding m_def by linarith+
    define b where "b = bitlen m"
    have b: "1 \<le> b" using m bitlen_pos [of m] by (simp add: b_def)
    have bb: "2 ^ nat (b - 1) \<le> m" "m < 2 ^ nat b"
      using bitlen_bounds [of m] m by (simp_all add: b_def)
    have e: "ilog2 x = - b"
      using False by (simp add: ilog2_def m_def b_def y_def)
    have lo: "(2::rat) powi (- b) = 1 / of_int (2 ^ nat b)"
      using b by (simp add: power_int_minus_divide power_int_nonneg_exp)
    have hi: "(2::rat) powi (- b + 1) = 1 / of_int (2 ^ nat (b - 1))"
    proof -
      have "(2::rat) powi (- b + 1) = 2 powi (- (b - 1))" by simp
      also have "\<dots> = 1 / 2 powi (b - 1)" by (rule power_int_minus_divide)
      also have "\<dots> = 1 / of_int (2 ^ nat (b - 1))"
        using b by (simp add: power_int_nonneg_exp)
      finally show ?thesis .
    qed
    have p1: "(of_int (2 ^ nat (b - 1)) :: rat) \<le> of_int m"
      using bb(1) by (simp only: of_int_le_iff)
    have p2: "(of_int m :: rat) + 1 \<le> of_int (2 ^ nat b)"
      using bb(2) by (metis of_int_1 of_int_add of_int_le_iff zless_imp_add1_zle)
    have pos1: "(0::rat) < of_int (2 ^ nat (b - 1))" by simp
    have "y \<le> of_int (2 ^ nat b)" using m p2 by linarith
    then have l: "1 / of_int (2 ^ nat b) \<le> 1 / y"
      using y(1) by (intro divide_left_mono) (auto intro: mult_pos_pos)
    have "of_int (2 ^ nat (b - 1)) < y" using m p1 by linarith
    then have u: "1 / y < 1 / of_int (2 ^ nat (b - 1))"
      using pos1 y(1) by (simp add: frac_less2)
    have "2 powi ilog2 x = 1 / (of_int (2 ^ nat b) :: rat)"
      by (simp only: e lo)
    moreover have "2 powi (ilog2 x + 1) = 1 / (of_int (2 ^ nat (b - 1)) :: rat)"
      by (simp only: e hi)
    ultimately show ?thesis
      using l u y(2) by simp
  qed
  then show "2 powi ilog2 x \<le> x" and "x < 2 powi (ilog2 x + 1)"
    by simp_all
qed

subsection \<open>Rounding to the nearest double\<close>

lemma two_powi_less_imp_less:
  assumes "(2::rat) powi a < 2 powi b"
  shows "a < b"
proof (rule ccontr)
  assume "\<not> a < b"
  then have "(2::rat) powi b \<le> 2 powi a"
    by (intro power_int_increasing) simp_all
  with assms show False by simp
qed

lemma f64_ulp_pos: "0 < f64_ulp x"
  by (simp add: f64_ulp_def)

lemma f64_round_0 [simp]: "f64_round 0 = 0"
  by (simp add: f64_round_def)

lemma f64_round_error: "\<bar>f64_round x - x\<bar> \<le> f64_ulp x / 2"
proof (cases "x = 0")
  case True
  then show ?thesis using f64_ulp_pos [of x] by simp
next
  case False
  define u where "u = f64_ulp x"
  have u: "0 < u" by (simp add: u_def f64_ulp_pos)
  have "f64_round x - x = (of_int (round_half_even (x / u)) - x / u) * u"
    using False u by (simp add: f64_round_def u_def algebra_simps)
  then have "\<bar>f64_round x - x\<bar> = \<bar>of_int (round_half_even (x / u)) - x / u\<bar> * u"
    using u by (simp add: abs_mult)
  also have "\<dots> \<le> 1 / 2 * u"
    using round_half_even_error [of "x / u"] u by (intro mult_right_mono) simp_all
  finally show ?thesis by (simp add: u_def)
qed

lemma f64_ulp_bound:
  assumes "x \<noteq> 0" and "\<bar>x\<bar> < 2 powi k"
  shows "f64_ulp x \<le> 2 powi (k - 53)"
proof -
  have "2 powi ilog2 \<bar>x\<bar> \<le> \<bar>x\<bar>"
    using assms(1) by (intro ilog2_bounds) simp
  with assms(2) have "(2::rat) powi ilog2 \<bar>x\<bar> < 2 powi k" by linarith
  then have "ilog2 \<bar>x\<bar> < k"
    by (rule two_powi_less_imp_less)
  then have "ilog2 \<bar>x\<bar> - 52 \<le> k - 53" by simp
  then show ?thesis
    unfolding f64_ulp_def by (intro power_int_increasing) simp_all
qed

lemma f64_ulp_le: 
  assumes "x \<noteq> 0"
  shows "f64_ulp x \<le> \<bar>x\<bar> / 2 ^ 52"
proof -
  have "2 powi ilog2 \<bar>x\<bar> \<le> \<bar>x\<bar>"
    using assms by (intro ilog2_bounds) simp
  moreover have "f64_ulp x = 2 powi ilog2 \<bar>x\<bar> / 2 ^ 52"
    by (simp add: f64_ulp_def power_int_diff)
  ultimately show ?thesis
    by (simp add: divide_right_mono)
qed

lemma f64_round_rel_error: "\<bar>f64_round x - x\<bar> \<le> \<bar>x\<bar> / 2 ^ 53"
proof (cases "x = 0")
  case True
  then show ?thesis by simp
next
  case False
  have "\<bar>f64_round x - x\<bar> \<le> f64_ulp x / 2" by (rule f64_round_error)
  also have "\<dots> \<le> (\<bar>x\<bar> / 2 ^ 52) / 2"
    using f64_ulp_le [OF False] by simp
  finally show ?thesis by simp
qed

lemma f64_round_exact:
  assumes "\<bar>m\<bar> < 2 ^ 53"
  shows "f64_round (of_int m * 2 powi j) = of_int m * 2 powi j"
proof (cases "m = 0")
  case True
  then show ?thesis by simp
next
  case False
  define x :: rat where "x = of_int m * 2 powi j"
  have x0: "x \<noteq> 0" using False by (simp add: x_def)
  have "\<bar>x\<bar> = of_int \<bar>m\<bar> * 2 powi j"
    by (simp add: x_def abs_mult power_int_abs)
  also have "\<dots> < of_int (2 ^ 53) * 2 powi j"
    using assms by (intro mult_strict_right_mono) (simp_all only: of_int_less_iff zero_less_power_int zero_less_numeral)
  also have "\<dots> = 2 powi (53 + j)"
    by (simp add: power_int_add)
  finally have "\<bar>x\<bar> < 2 powi (53 + j)" .
  then have "(2::rat) powi ilog2 \<bar>x\<bar> < 2 powi (53 + j)"
    using ilog2_bounds(1) [of "\<bar>x\<bar>"] x0 by simp
  then have e: "ilog2 \<bar>x\<bar> - 52 \<le> j"
    using two_powi_less_imp_less by fastforce
  define d where "d = j - (ilog2 \<bar>x\<bar> - 52)"
  have d: "0 \<le> d" using e by (simp add: d_def)
  have j: "j = d + (ilog2 \<bar>x\<bar> - 52)" by (simp add: d_def)
  have "(2::rat) powi j = 2 powi d * 2 powi (ilog2 \<bar>x\<bar> - 52)"
    by (subst j) (simp add: power_int_add)
  then have "x = of_int m * 2 powi d * f64_ulp x"
    by (simp add: x_def f64_ulp_def)
  then have q: "x / f64_ulp x = of_int (m * 2 ^ nat d)"
    using f64_ulp_pos [of x] d by (simp add: power_int_nonneg_exp field_simps)
  have "f64_round x = of_int (m * 2 ^ nat d) * f64_ulp x"
    using x0 by (simp only: f64_round_def q round_half_even_of_int if_False)
  also have "\<dots> = x"
    using q f64_ulp_pos [of x] by (simp add: field_simps)
  finally show ?thesis by (simp add: x_def)
qed

lemma f64_round_of_int:
  assumes "\<bar>m\<bar> < 2 ^ 53"
  shows "f64_round (of_int m) = of_int m"
  using f64_round_exact [OF assms, of 0] by simp

lemma f64_round_dyadic:
  assumes "\<bar>m\<bar> < 2 ^ 53"
  shows "f64_round (of_int m / 2 ^ k) = of_int m / 2 ^ k"
  using f64_round_exact [OF assms, of "- int k"] by (simp add: power_int_minus_divide)

lemma f64_round_nonneg: "0 \<le> x \<Longrightarrow> 0 \<le> f64_round x"
  using f64_ulp_pos [of x]
  by (simp add: f64_round_def round_half_even_nonneg)

subsection \<open>Decimal digits\<close>

lemma digit_char_cases:
  assumes "0 \<le> d" "d < 10"
  shows "d = 0 \<or> d = 1 \<or> d = 2 \<or> d = 3 \<or> d = 4 \<or> d = 5 \<or> d = 6 \<or> d = 7 \<or> d = 8 \<or> d = (9::int)"
  using assms by arith

lemma digit_char_props:
  assumes "0 \<le> d" "d < 10"
  shows "is_digit (digit_char d)" and "digit_val (digit_char d) = d"
    and "\<not> is_sign (digit_char d)" and "\<not> is_blank (digit_char d)"
    and "digit_char d \<noteq> CHR ''.''"
  using digit_char_cases [OF assms]
  by (auto simp: digit_char_def is_digit_def digit_val_def is_sign_def is_blank_def)

lemma show_digits_nonempty: "show_digits n \<noteq> []"
  by (subst show_digits.simps) simp

lemma show_digits_last:
  "0 \<le> n \<Longrightarrow> last (show_digits n) = digit_char (n mod 10)"
  by (subst show_digits.simps) simp

lemma show_digits_all_digits:
  "0 \<le> n \<Longrightarrow> c \<in> set (show_digits n) \<Longrightarrow> is_digit c"
proof (induction n arbitrary: c rule: show_digits.induct)
  case (1 n)
  show ?case
  proof (cases "n < 10")
    case True
    with "1.prems" show ?thesis
      by (subst (asm) show_digits.simps) (simp add: digit_char_props)
  next
    case False
    with "1.prems" have "c \<in> set (show_digits (n div 10)) \<or> c = digit_char (n mod 10)"
      by (subst (asm) show_digits.simps) auto
    then show ?thesis
    proof
      assume "c \<in> set (show_digits (n div 10))"
      with "1.IH" [of c] False "1.prems"(1) show ?thesis by simp
    next
      assume "c = digit_char (n mod 10)"
      then show ?thesis by (simp add: digit_char_props)
    qed
  qed
qed

lemma read_digits_snoc: "read_digits (ds @ [c]) = 10 * read_digits ds + digit_val c"
  by (simp add: read_digits_def)

lemma read_digits_show_digits: "0 \<le> n \<Longrightarrow> read_digits (show_digits n) = n"
proof (induction n rule: show_digits.induct)
  case (1 n)
  show ?case
  proof (cases "n < 10")
    case True
    with "1.prems" show ?thesis
      by (subst show_digits.simps) (simp add: read_digits_def digit_char_props)
  next
    case False
    with "1.IH" "1.prems" have "read_digits (show_digits (n div 10)) = n div 10"
      by simp
    with False show ?thesis
      by (subst show_digits.simps) (simp add: read_digits_snoc digit_char_props)
  qed
qed

lemma show_digits_hd:
  assumes "0 \<le> n"
  shows "is_digit (hd (show_digits n))"
  using show_digits_all_digits [OF assms, of "hd (show_digits n)"] show_digits_nonempty [of n]
  by simp

subsection \<open>Suffixes\<close>

lemma HasSuffix_append [simp]: "HasSuffix (s @ t) t"
  by (simp add: HasSuffix_def)

lemma TrimSuffix_append [simp]: "TrimSuffix (s @ t) t = s"
  by (simp add: TrimSuffix_def)

lemma HasSuffix_last:
  assumes "HasSuffix (s @ [c]) (t @ [d])"
  shows "c = d"
proof -
  from assms have "drop (length (s @ [c]) - length (t @ [d])) (s @ [c]) = t @ [d]"
    by (simp add: HasSuffix_def)
  then have "last (drop (length (s @ [c]) - length (t @ [d])) (s @ [c])) = d"
    by simp
  moreover from assms have "length (s @ [c]) - length (t @ [d]) < length (s @ [c])"
    by (simp add: HasSuffix_def)
  ultimately show ?thesis
    by (simp only: last_drop last_snoc)
qed

subsection \<open>Reading back a printed integer\<close>

lemma float_token_digits:
  assumes "0 \<le> n"
  shows "float_token (show_digits n) = ([], show_digits n, None, [])"
proof -
  have d: "\<forall>c \<in> set (show_digits n). is_digit c"
    using show_digits_all_digits [OF assms] by blast
  obtain c cs where s: "show_digits n = c # cs"
    using show_digits_nonempty [of n] by (cases "show_digits n") auto
  have "is_digit c" using d s by simp
  then have "\<not> is_sign c"
    by (auto simp: is_digit_def is_sign_def)
  then have sg: "takeWhile is_sign (take 1 (show_digits n)) = []"
    by (simp add: s)
  have tw: "takeWhile is_digit (show_digits n) = show_digits n"
    using d by (simp add: takeWhile_eq_all_conv)
  show ?thesis
    unfolding float_token_def Let_def sg by (simp add: tw)
qed

lemma Sscanf_f_show_digits:
  assumes "0 \<le> n" "n < 2 ^ 53"
  shows "Sscanf_f (show_digits n) = of_int n"
proof -
  obtain c cs where s: "show_digits n = c # cs"
    using show_digits_nonempty [of n] by (cases "show_digits n") auto
  have "is_digit c"
    using show_digits_all_digits [OF assms(1), of c] s by simp
  then have "\<not> is_blank c"
    by (auto simp: is_digit_def is_blank_def)
  then have "dropWhile is_blank (show_digits n) = show_digits n"
    by (simp add: s)
  moreover have "f64_round (of_int n) = of_int n"
    using assms by (intro f64_round_of_int) simp
  ultimately show ?thesis
    using assms(1)
    by (simp add: Sscanf_f_def float_token_digits literal_value_def show_digits_nonempty
          read_digits_show_digits)
       (simp add: read_digits_def)
qed


section \<open>Formatting and re-parsing usage values\<close>

lemma not_sentinel_by_last:
  assumes "last s = c" "s \<noteq> []" "c \<noteq> CHR ''-''" "c \<noteq> CHR ''>''"
  shows "s \<noteq> ''-''" and "s \<noteq> ''<unknown>''"
  using assms by auto

text \<open>
  Claim C9. For a milli-core value \<open>v\<close> with \<open>0 < v < 1000\<close>, \<open>formatCPU v\<close> is the decimal
  digits of \<open>v\<close> followed by \<open>m\<close>, and the CPU sort-value parser, which strips the \<open>m\<close>
  and scans the number, returns exactly \<open>v\<close>.
\<close>

theorem formatCPU_parse_roundtrip:
  assumes "0 < v" and "v < 1000"
  shows "formatCPU v = show_digits v @ ''m''
       \<and> HasSuffix (formatCPU v) ''m''
       \<and> Sscanf_f (TrimSuffix (formatCPU v) ''m'') = of_int v
       \<and> parseCPUValue (formatCPU v) = of_int v"
proof -
  have f: "formatCPU v = show_digits v @ ''m''"
    using assms by (simp add: formatCPU_def Sprintf_d_def)
  have s: "Sscanf_f (show_digits v) = of_int v"
    using assms by (intro Sscanf_f_show_digits) simp_all
  have "show_digits v @ ''m'' \<noteq> ''-''" "show_digits v @ ''m'' \<noteq> ''<unknown>''"
    by (rule not_sentinel_by_last [where c = "CHR ''m''"]; simp)+
  then have "parseCPUValue (show_digits v @ ''m'') = of_int v"
    by (simp add: parseCPUValue_def s)
  then show ?thesis
    by (simp add: f s)
qed

theorem formatCPU_parse_roundtrip_witness:
  "(0::int) < 100 \<and> (100::int) < 1000 \<and> formatCPU 100 = ''100m'' \<and> parseCPUValue ''100m'' = 100"
proof -
  have d: "show_digits 100 = ''100''"
    by (simp add: show_digits.simps digit_char_def)
  from formatCPU_parse_roundtrip [of 100] show ?thesis
    by (auto simp: d)
qed

text \<open>
  Claim C10. For a byte value \<open>v\<close> with \<open>1 \<le> v < 1024\<close>, \<open>formatMemory v\<close> is the decimal
  digits of \<open>v\<close> followed by \<open>B\<close>; the memory sort-value parser finds none of the suffixes
  \<open>Gi\<close>, \<open>Mi\<close>, \<open>Ki\<close> on it and returns \<open>0\<close>, which is not \<open>v\<close>.
\<close>

theorem formatMemory_below_Ki_parses_to_zero:
  assumes "1 \<le> v" and "v < 1024"
  shows "formatMemory v = show_digits v @ ''B''
       \<and> HasSuffix (formatMemory v) ''B''
       \<and> parseMemoryValue (formatMemory v) = 0
       \<and> parseMemoryValue (formatMemory v) \<noteq> v"
proof -
  have f: "formatMemory v = show_digits v @ ''B''"
    using assms by (simp add: formatMemory_def Sprintf_d_def KB_def MB_def GB_def)
  have n: "show_digits v @ ''B'' \<noteq> ''-''" "show_digits v @ ''B'' \<noteq> ''<unknown>''"
    by (rule not_sentinel_by_last [where c = "CHR ''B''"]; simp)+
  have "\<not> HasSuffix (show_digits v @ ''B'') (''G'' @ ''i'')"
       "\<not> HasSuffix (show_digits v @ ''B'') (''M'' @ ''i'')"
       "\<not> HasSuffix (show_digits v @ ''B'') (''K'' @ ''i'')"
    using HasSuffix_last [of "show_digits v" "CHR ''B''" "''G''" "CHR ''i''"]
          HasSuffix_last [of "show_digits v" "CHR ''B''" "''M''" "CHR ''i''"]
          HasSuffix_last [of "show_digits v" "CHR ''B''" "''K''" "CHR ''i''"]
    by auto
  then have "parseMemoryValue (show_digits v @ ''B'') = 0"
    using n by (simp add: parseMemoryValue_def)
  then show ?thesis
    using assms by (simp add: f)
qed

theorem formatMemory_below_Ki_parses_to_zero_witness:
  "(1::int) \<le> 512 \<and> (512::int) < 1024 \<and> formatMemory 512 = ''512B'' \<and> parseMemoryValue ''512B'' = 0"
proof -
  have d: "show_digits 512 = ''512''"
    by (simp add: show_digits.simps digit_char_def)
  from formatMemory_below_Ki_parses_to_zero [of 512] show ?thesis
    by (auto simp: d)
qed


section \<open>The rows of the combiners\<close>







subsection \<open>The lookup maps hold the last element of each entity\<close>













section \<open>The cases of \<open>formatCPU\<close>\<close>

subsection \<open>Printing with a fixed number of decimals\<close>

lemma Sprintf_f_0: "0 \<le> x \<Longrightarrow> Sprintf_f 0 x = show_digits (round_half_even x)"
  by (simp add: Sprintf_f_def)

lemma show_digits_one: "0 \<le> r \<Longrightarrow> r < 10 \<Longrightarrow> show_digits r = [digit_char r]"
  by (subst show_digits.simps) simp

lemma show_digits_two:
  assumes "10 \<le> r" "r < 100"
  shows "show_digits r = [digit_char (r div 10), digit_char (r mod 10)]"
proof -
  have "0 \<le> r div 10" "r div 10 < 10" using assms by simp_all
  then have "show_digits (r div 10) = [digit_char (r div 10)]"
    by (rule show_digits_one)
  with assms show ?thesis
    by (subst show_digits.simps) simp
qed

lemma digit_char_0: "digit_char 0 = CHR ''0''"
  by (simp add: digit_char_def)

lemma pad_zeros_two:
  assumes "0 \<le> r" "r < 100"
  shows "pad_zeros 2 (show_digits r) = [digit_char (r div 10), digit_char (r mod 10)]"
proof (cases "r < 10")
  case True
  with assms show ?thesis
    by (simp add: show_digits_one pad_zeros_def digit_char_0)
next
  case False
  with assms show ?thesis
    by (simp add: show_digits_two pad_zeros_def)
qed

lemma Sprintf_f_2:
  assumes "0 \<le> x"
  shows "Sprintf_f 2 x = two_decimals (round_half_even (x * 100))"
proof -
  define n where "n = round_half_even (x * 100)"
  have "0 \<le> n mod 100" "n mod 100 < 100" by simp_all
  then have "pad_zeros 2 (show_digits (n mod 100)) =
               [digit_char (n mod 100 div 10), digit_char (n mod 100 mod 10)]"
    by (rule pad_zeros_two)
  moreover have "n mod 100 mod 10 = n mod 10"
    by (simp add: mod_mod_cancel)
  ultimately show ?thesis
    using assms by (simp add: Sprintf_f_def two_decimals_def n_def [symmetric] Let_def)
qed

lemma float64_of_int_exact: "\<bar>m\<bar> < 2 ^ 53 \<Longrightarrow> float64_of_int m = of_int m"
  by (simp add: float64_of_int_def f64_round_of_int)

lemma int64_of_float64_of_int:
  "- (2 ^ 63) \<le> k \<Longrightarrow> k < 2 ^ 63 \<Longrightarrow> int64_of_float64 (of_int k) = k"
  by (simp add: int64_of_float64_def)

lemma formatCPU_whole_cores:
  assumes "0 < k" and "1000 * k < 2 ^ 53"
  shows "formatCPU (1000 * k) = show_digits k"
proof -
  have k: "\<bar>k\<bar> < 2 ^ 53" "k < 2 ^ 63" using assms by simp_all
  have "float64_of_int (1000 * k) = of_int (1000 * k)"
    using assms by (intro float64_of_int_exact) simp
  then have v: "float64_of_int (1000 * k) = 1000 * of_int k" by simp
  have "(1000 * of_int k :: rat) / 1000 = of_int k" by simp
  then have c: "f64_div (1000 * of_int k) 1000 = of_int k"
    using k(1) by (simp only: f64_div_def f64_round_of_int)
  have i: "int64_of_float64 (of_int k) = k"
    using assms(1) k(2) by (intro int64_of_float64_of_int) simp_all
  have f: "float64_of_int k = of_int k"
    using k(1) by (rule float64_of_int_exact)
  show ?thesis
    using assms(1) by (simp add: formatCPU_def v c i f Sprintf_f_0)
qed

lemma formatCPU_fractional_cores:
  assumes "1000 \<le> v" and "v < 2 ^ 53" and "\<not> 1000 dvd v"
  shows "\<exists>n. formatCPU v = two_decimals n
           \<and> (n = v div 10 \<or> n = v div 10 + 1)
           \<and> (v mod 10 < 5 \<longrightarrow> n = v div 10)
           \<and> (5 < v mod 10 \<longrightarrow> n = v div 10 + 1)"
proof -
  define x :: rat where "x = of_int v / 1000"
  define cores where "cores = f64_round x"
  have vr: "(1000::rat) \<le> of_int v" "(of_int v :: rat) < 2 ^ 53"
    using assms(1,2) by (simp_all only: of_int_le_iff [symmetric] of_int_less_iff [symmetric]) simp_all
  have x1: "1 \<le> x" using vr(1) by (simp add: x_def)
  have "x < 2 ^ 44" using vr(2) by (simp add: x_def)
  then have x2: "\<bar>x\<bar> < 2 powi 44" using x1 by simp
  have "f64_ulp x \<le> 2 powi (44 - 53)"
    using x1 x2 by (intro f64_ulp_bound) simp_all
  then have "f64_ulp x \<le> 1 / 512"
    by (simp add: power_int_minus_divide)
  with f64_round_error [of x] have err: "\<bar>cores - x\<bar> \<le> 1 / 1024"
    by (simp add: cores_def)
  have cores0: "0 \<le> cores"
    using x1 by (simp add: cores_def f64_round_nonneg)
  have v: "float64_of_int v = of_int v"
    using assms(1,2) by (intro float64_of_int_exact) simp
  have c: "f64_div (float64_of_int v) 1000 = cores"
    by (simp add: v f64_div_def cores_def x_def)
  have nonint: "cores \<noteq> float64_of_int (int64_of_float64 cores)"
  proof
    assume eq: "cores = float64_of_int (int64_of_float64 cores)"
    define t where "t = \<lfloor>cores\<rfloor>"
    have "cores < 2 ^ 44 + 1" using err \<open>x < 2 ^ 44\<close> by linarith
    then have "cores < of_int (2 ^ 44 + 1)" by simp
    then have "t < 2 ^ 44 + 1" unfolding t_def by (simp only: floor_less_iff)
    moreover have "0 \<le> t" using cores0 by (simp add: t_def)
    ultimately have t: "0 \<le> t" "t < 2 ^ 53" "t < 2 ^ 63" by simp_all
    have "int64_of_float64 cores = t"
      using cores0 t by (simp add: int64_of_float64_def t_def [symmetric])
    moreover have "float64_of_int t = of_int t"
      using t by (intro float64_of_int_exact) simp
    ultimately have "cores = of_int t" using eq by simp
    with err have "\<bar>of_int t - of_int v / (1000::rat)\<bar> \<le> 1 / 1024"
      by (simp add: x_def)
    then have "\<bar>(of_int (1000 * t - v) :: rat)\<bar> < 1"
      by (simp add: field_simps abs_if split: if_splits)
    then have "\<bar>1000 * t - v\<bar> < 1"
      by (metis of_int_1 of_int_abs of_int_less_iff)
    then have "v = 1000 * t" by simp
    with assms(3) show False by simp
  qed
  define n where "n = round_half_even (cores * 100)"
  have fmt: "formatCPU v = two_decimals n"
    using assms(1) nonint cores0
    by (simp add: formatCPU_def c Sprintf_f_2 n_def)
  define q r where "q = v div 10" and "r = v mod 10"
  have r: "0 \<le> r" "r < 10" by (simp_all add: r_def)
  have "v = 10 * q + r" by (simp add: q_def r_def)
  then have "(of_int v :: rat) = 10 * of_int q + of_int r" by simp
  then have xq: "x * 100 = of_int q + of_int r / 10"
    by (simp add: x_def)
  have e100: "\<bar>cores * 100 - x * 100\<bar> \<le> 100 / 1024"
    using err by (simp add: abs_if split: if_splits)
  have rr: "(0::rat) \<le> of_int r" "(of_int r :: rat) \<le> 9"
    using r by simp_all
  have near: "\<bar>of_int n - cores * 100\<bar> \<le> 1 / 2"
    unfolding n_def by (rule round_half_even_error)
  have "(of_int q :: rat) - 1 < of_int n" "(of_int n :: rat) < of_int q + 2"
    using near e100 xq rr by (simp_all add: abs_if split: if_splits)
  then have "q - 1 < n" "n < q + 2"
    by (metis of_int_1 of_int_diff of_int_less_iff, metis of_int_add of_int_less_iff of_int_numeral)
  then have range: "n = q \<or> n = q + 1" by linarith
  have low: "n = q" if "r < 5"
  proof -
    from that have "(of_int r :: rat) \<le> 4" by simp
    with e100 xq rr have "\<bar>cores * 100 - of_int q\<bar> < 1 / 2"
      by (simp add: abs_if split: if_splits)
    then show ?thesis unfolding n_def by (rule round_half_even_unique)
  qed
  have high: "n = q + 1" if "5 < r"
  proof -
    from that have "(6::rat) \<le> of_int r" by simp
    with e100 xq rr have "\<bar>cores * 100 - of_int (q + 1)\<bar> < 1 / 2"
      by (simp add: abs_if split: if_splits)
    then show ?thesis unfolding n_def by (rule round_half_even_unique)
  qed
  show ?thesis
    using fmt range low high by (auto simp: q_def r_def)
qed

text \<open>
  Claim C6, as amended. For a milli-core value \<open>v\<close> with \<open>0 \<le> v < 2^53\<close> (the integers that a
  double holds exactly), \<open>formatCPU\<close> returns \<open>"0"\<close> when \<open>v = 0\<close>, the digits of \<open>v\<close> followed
  by \<open>m\<close> when \<open>0 < v < 1000\<close>, the digits of \<open>v / 1000\<close> with no decimal point when \<open>v\<close> is a
  positive multiple of 1000, and otherwise a number with exactly two decimal places: the
  hundredths printed are \<open>v / 10\<close> rounded down or up, down when the last digit of \<open>v\<close> is
  below 5 and up when it is above 5.
\<close>

theorem formatCPU_cases:
  assumes "0 \<le> v" and "v < 2 ^ 53"
  shows "(v = 0 \<longrightarrow> formatCPU v = ''0'')
       \<and> (0 < v \<and> v < 1000 \<longrightarrow> formatCPU v = show_digits v @ ''m'')
       \<and> (0 < v \<and> 1000 dvd v \<longrightarrow> formatCPU v = show_digits (v div 1000))
       \<and> (1000 \<le> v \<and> \<not> 1000 dvd v \<longrightarrow>
            (\<exists>n. formatCPU v = two_decimals n
               \<and> (n = v div 10 \<or> n = v div 10 + 1)
               \<and> (v mod 10 < 5 \<longrightarrow> n = v div 10)
               \<and> (5 < v mod 10 \<longrightarrow> n = v div 10 + 1)))"
proof -
  have 1: "formatCPU 0 = ''0''"
    by (simp add: formatCPU_def)
  have 2: "formatCPU v = show_digits v @ ''m''" if "0 < v" "v < 1000"
    using that by (simp add: formatCPU_def Sprintf_d_def)
  have 3: "formatCPU v = show_digits (v div 1000)" if "0 < v" "1000 dvd v"
  proof -
    from that(2) obtain k where k: "v = 1000 * k" by (auto simp: dvd_def)
    with that(1) assms(2) have "0 < k" "1000 * k < 2 ^ 53" by simp_all
    then have "formatCPU (1000 * k) = show_digits k"
      by (rule formatCPU_whole_cores)
    then show ?thesis by (simp add: k)
  qed
  show ?thesis
    using 1 2 3 formatCPU_fractional_cores [OF _ assms(2)] by blast
qed

theorem formatCPU_cases_witness:
  "(0::int) \<le> 1500 \<and> (1500::int) < 2 ^ 53
   \<and> formatCPU 0 = ''0'' \<and> formatCPU 100 = ''100m'' \<and> formatCPU 1000 = ''1''
   \<and> formatCPU 5000 = ''5'' \<and> formatCPU 1500 = ''1.50''"
proof -
  have d: "show_digits 100 = ''100''" "show_digits 1 = ''1''" "show_digits 5 = ''5''"
    "two_decimals 150 = ''1.50''"
    by (simp_all add: two_decimals_def show_digits.simps digit_char_def)
  have "formatCPU 0 = ''0''"
    using formatCPU_cases [of 0] by simp
  moreover have "formatCPU 100 = ''100m''"
    using formatCPU_cases [of 100] by (simp add: d)
  moreover have "formatCPU 1000 = ''1''"
    using formatCPU_cases [of 1000] by (simp add: d)
  moreover have "formatCPU 5000 = ''5''"
    using formatCPU_cases [of 5000] by (simp add: d)
  moreover have "formatCPU 1500 = ''1.50''"
    using formatCPU_cases [of 1500] by (auto simp: d)
  ultimately show ?thesis by simp
qed

text \<open>
  Claim C6 as stated, for every non-negative value, fails beyond the exact range of a
  double: \<open>2^62 + 1\<close> milli-cores is not a multiple of 1000, yet the quotient computed in
  double precision is a whole number and is printed without decimals.
\<close>

theorem formatCPU_large_value_without_decimals:
  "(0::int) \<le> 2 ^ 62 + 1 \<and> \<not> 1000 dvd (2 ^ 62 + 1 :: int)
   \<and> formatCPU (2 ^ 62 + 1) = ''4611686018427388''"
  by code_simp


section \<open>The cases of \<open>formatMemory\<close>\<close>

subsection \<open>Accumulated rounding error\<close>

lemma rel_error_trans:
  fixes x y z :: rat
  assumes "\<bar>x - y\<bar> \<le> d1 * \<bar>y\<bar>" and "\<bar>y - z\<bar> \<le> d2 * \<bar>z\<bar>" and "0 \<le> d1"
  shows "\<bar>x - z\<bar> \<le> (d1 + d2 + d1 * d2) * \<bar>z\<bar>"
proof -
  have "\<bar>y\<bar> \<le> \<bar>z\<bar> + d2 * \<bar>z\<bar>"
    using assms(2) by linarith
  then have "d1 * \<bar>y\<bar> \<le> d1 * (\<bar>z\<bar> + d2 * \<bar>z\<bar>)"
    using assms(3) by (rule mult_left_mono)
  then have "\<bar>x - y\<bar> \<le> d1 * \<bar>z\<bar> + d1 * d2 * \<bar>z\<bar>"
    using assms(1) by (simp add: algebra_simps)
  moreover have "\<bar>x - z\<bar> \<le> \<bar>x - y\<bar> + \<bar>y - z\<bar>"
    by simp
  ultimately show ?thesis
    using assms(2) by (simp add: algebra_simps)
qed

lemma f64_round_rel: "\<bar>f64_round x - x\<bar> \<le> (1 / 2 ^ 53) * \<bar>x\<bar>"
  using f64_round_rel_error [of x] by simp

lemma f64_round_neg:
  assumes "x < 0"
  shows "f64_round x < 0"
proof -
  have "f64_round x \<le> x + \<bar>x\<bar> / 2 ^ 53"
    using f64_round_rel_error [of x] by linarith
  also have "\<dots> = x * (1 - 1 / 2 ^ 53)"
    using assms by (simp add: algebra_simps)
  also have "\<dots> < 0"
    using assms by (intro mult_neg_pos) simp_all
  finally show ?thesis .
qed

lemma round_half_even_numeral [simp]: "round_half_even (numeral k) = numeral k"
  using round_half_even_of_int [of "numeral k"] by simp

lemma formatMemory_unfold:
  "formatMemory v =
     (if v = 0 then ''0''
      else if 2 ^ 30 \<le> v then Sprintf_f 2 (f64_div (float64_of_int v) (2 ^ 30)) @ ''Gi''
      else if 2 ^ 20 \<le> v then Sprintf_f 2 (f64_div (float64_of_int v) (2 ^ 20)) @ ''Mi''
      else if 2 ^ 10 \<le> v then Sprintf_f 2 (f64_div (float64_of_int v) (2 ^ 10)) @ ''Ki''
      else Sprintf_d v @ ''B'')"
proof -
  have u: "KB = 2 ^ 10" "MB = 2 ^ 20" "GB = 2 ^ 30"
    by (simp_all add: KB_def MB_def GB_def)
  have f: "float64_of_int (2 ^ 10) = 2 ^ 10" "float64_of_int (2 ^ 20) = 2 ^ 20"
    "float64_of_int (2 ^ 30) = 2 ^ 30"
    using float64_of_int_exact [of "2 ^ 10"] float64_of_int_exact [of "2 ^ 20"]
      float64_of_int_exact [of "2 ^ 30"]
    by simp_all
  show ?thesis
    by (simp only: formatMemory_def u f)
qed

text \<open>Below \<open>2^53\<close> bytes the quotient by a binary unit is computed without rounding.\<close>

lemma unit_quotient_exact:
  assumes "0 \<le> v" and "v < 2 ^ 53"
  shows "f64_div (float64_of_int v) (2 ^ k) = of_int v / 2 ^ k"
proof -
  have "\<bar>v\<bar> < 2 ^ 53" using assms by simp
  then show ?thesis
    by (simp add: f64_div_def float64_of_int_exact f64_round_dyadic)
qed

text \<open>In the whole int64 range the quotient by \<open>2^30\<close> is off by less than \<open>2^-18\<close>.\<close>

lemma Gi_quotient_error:
  assumes "0 \<le> v" and "v < 2 ^ 63"
  shows "\<bar>f64_div (float64_of_int v) (2 ^ 30) - of_int v / 2 ^ 30\<bar> \<le> 1 / 2 ^ 18"
    and "0 \<le> f64_div (float64_of_int v) (2 ^ 30)"
proof -
  define a where "a = f64_round (of_int v)"
  define q where "q = f64_round (a / 2 ^ 30)"
  define z :: rat where "z = of_int v / 2 ^ 30"
  have "\<bar>a - of_int v\<bar> \<le> (1 / 2 ^ 53) * \<bar>of_int v\<bar>"
    unfolding a_def by (rule f64_round_rel)
  then have 1: "\<bar>a / 2 ^ 30 - z\<bar> \<le> (1 / 2 ^ 53) * \<bar>z\<bar>"
    by (simp add: z_def abs_if field_simps split: if_splits)
  have 2: "\<bar>q - a / 2 ^ 30\<bar> \<le> (1 / 2 ^ 53) * \<bar>a / 2 ^ 30\<bar>"
    unfolding q_def by (rule f64_round_rel)
  have 3: "\<bar>q - z\<bar> \<le> (1 / 2 ^ 53 + 1 / 2 ^ 53 + 1 / 2 ^ 53 * (1 / 2 ^ 53)) * \<bar>z\<bar>"
    using 2 1 by (rule rel_error_trans) simp
  have "(of_int v :: rat) < 2 ^ 63" "(0::rat) \<le> of_int v"
    using assms by (simp_all only: of_int_less_iff [symmetric] of_int_le_iff [symmetric]) simp_all
  then have z: "0 \<le> z" "z \<le> 2 ^ 33"
    by (simp_all add: z_def field_simps)
  have "(1 / 2 ^ 53 + 1 / 2 ^ 53 + 1 / 2 ^ 53 * (1 / 2 ^ 53)) * \<bar>z\<bar>
          \<le> (1 / 2 ^ 53 + 1 / 2 ^ 53 + 1 / 2 ^ 53 * (1 / 2 ^ 53)) * (2 ^ 33 :: rat)"
    using z by (intro mult_left_mono) simp_all
  also have "\<dots> \<le> 1 / 2 ^ 18" by simp
  finally have "\<bar>q - z\<bar> \<le> 1 / 2 ^ 18" using 3 by linarith
  moreover have "0 \<le> a" using assms(1) by (simp add: a_def f64_round_nonneg)
  then have "0 \<le> q" by (simp add: q_def f64_round_nonneg)
  ultimately show "\<bar>f64_div (float64_of_int v) (2 ^ 30) - of_int v / 2 ^ 30\<bar> \<le> 1 / 2 ^ 18"
    and "0 \<le> f64_div (float64_of_int v) (2 ^ 30)"
    by (simp_all add: f64_div_def float64_of_int_def a_def q_def z_def)
qed

lemma formatMemory_Gi:
  assumes "2 ^ 30 \<le> v" and "v < 2 ^ 63"
  shows "\<exists>n. formatMemory v = two_decimals n @ ''Gi''
           \<and> \<bar>of_int n / 100 - of_int v / 2 ^ 30\<bar> < (1 / 100 :: rat)
           \<and> (v < 2 ^ 53 \<longrightarrow> n = round_half_even (of_int v * 100 / 2 ^ 30))"
proof -
  define q where "q = f64_div (float64_of_int v) (2 ^ 30)"
  define n where "n = round_half_even (q * 100)"
  have v0: "0 \<le> v" using assms(1) by (smt (verit) zero_le_power)
  have q: "\<bar>q - of_int v / 2 ^ 30\<bar> \<le> 1 / 2 ^ 18" "0 \<le> q"
    unfolding q_def using v0 assms(2) by (rule Gi_quotient_error)+
  have "v \<noteq> 0" using assms(1) by auto
  then have "formatMemory v = Sprintf_f 2 q @ ''Gi''"
    using assms(1) by (simp only: formatMemory_unfold q_def if_True if_False)
  then have fmt: "formatMemory v = two_decimals n @ ''Gi''"
    using q(2) by (simp only: Sprintf_f_2 n_def)
  have "\<bar>of_int n - q * 100\<bar> \<le> 1 / 2"
    unfolding n_def by (rule round_half_even_error)
  then have "\<bar>of_int n / 100 - q\<bar> \<le> 1 / 200"
    by (simp add: abs_if field_simps split: if_splits)
  with q(1) have close: "\<bar>of_int n / 100 - of_int v / 2 ^ 30\<bar> < (1 / 100 :: rat)"
    by (simp add: abs_if split: if_splits)
  have "n = round_half_even (of_int v * 100 / 2 ^ 30)" if "v < 2 ^ 53"
  proof -
    have "q = of_int v / 2 ^ 30"
      unfolding q_def using v0 that by (rule unit_quotient_exact)
    then have "q * 100 = of_int v * 100 / 2 ^ 30" by simp
    then show ?thesis by (simp only: n_def)
  qed
  with fmt close show ?thesis by blast
qed

text \<open>
  Claim C7. For a byte value \<open>v\<close> in the non-negative int64 range, \<open>formatMemory\<close> returns
  \<open>"0"\<close> when \<open>v = 0\<close>, the digits of \<open>v\<close> followed by \<open>B\<close> when \<open>1 \<le> v < 2^10\<close>, and otherwise
  the value in the largest of the units Ki, Mi, Gi that it reaches, printed with exactly
  two decimal places and the unit as suffix: the hundredths are the quotient rounded to
  the nearest integer (ties to even); above \<open>2^53\<close> bytes, where the conversion to double
  rounds, the number printed is still within one hundredth of the quotient. In
  particular \<open>2^30\<close> gives \<open>"1.00Gi"\<close> and \<open>512\<close> gives \<open>"512B"\<close>.
\<close>

theorem formatMemory_cases:
  assumes "0 \<le> v" and "v < 2 ^ 63"
  shows "(v = 0 \<longrightarrow> formatMemory v = ''0'')
       \<and> (1 \<le> v \<and> v < 2 ^ 10 \<longrightarrow> formatMemory v = show_digits v @ ''B'')
       \<and> (2 ^ 10 \<le> v \<and> v < 2 ^ 20 \<longrightarrow>
            formatMemory v = two_decimals (round_half_even (of_int v * 100 / 2 ^ 10)) @ ''Ki'')
       \<and> (2 ^ 20 \<le> v \<and> v < 2 ^ 30 \<longrightarrow>
            formatMemory v = two_decimals (round_half_even (of_int v * 100 / 2 ^ 20)) @ ''Mi'')
       \<and> (2 ^ 30 \<le> v \<longrightarrow>
            (\<exists>n. formatMemory v = two_decimals n @ ''Gi''
               \<and> \<bar>of_int n / 100 - of_int v / 2 ^ 30\<bar> < (1 / 100 :: rat)
               \<and> (v < 2 ^ 53 \<longrightarrow> n = round_half_even (of_int v * 100 / 2 ^ 30))))
       \<and> formatMemory (2 ^ 30) = ''1.00Gi'' \<and> formatMemory 512 = ''512B''"
proof -
  have 1: "formatMemory 0 = ''0''"
    by (simp add: formatMemory_def)
  have 2: "formatMemory w = show_digits w @ ''B''" if "1 \<le> w" "w < 2 ^ 10" for w
    using that by (simp add: formatMemory_unfold Sprintf_d_def)
  have 3: "formatMemory v = two_decimals (round_half_even (of_int v * 100 / 2 ^ 10)) @ ''Ki''"
    if "2 ^ 10 \<le> v" "v < 2 ^ 20"
  proof -
    have q: "f64_div (float64_of_int v) (2 ^ 10) = of_int v / 2 ^ 10"
      using that assms(1) by (intro unit_quotient_exact) simp_all
    have c: "v \<noteq> 0" "\<not> 2 ^ 30 \<le> v" "\<not> 2 ^ 20 \<le> v" using that by auto
    have "formatMemory v = Sprintf_f 2 (of_int v / 2 ^ 10) @ ''Ki''"
      using c that(1) by (simp only: formatMemory_unfold q if_True if_False)
    also have "Sprintf_f 2 (of_int v / 2 ^ 10) = two_decimals (round_half_even (of_int v / 2 ^ 10 * 100))"
      using assms(1) by (intro Sprintf_f_2) simp
    finally show ?thesis by simp
  qed
  have 4: "formatMemory v = two_decimals (round_half_even (of_int v * 100 / 2 ^ 20)) @ ''Mi''"
    if "2 ^ 20 \<le> v" "v < 2 ^ 30"
  proof -
    have q: "f64_div (float64_of_int v) (2 ^ 20) = of_int v / 2 ^ 20"
      using that assms(1) by (intro unit_quotient_exact) simp_all
    have c: "v \<noteq> 0" "\<not> 2 ^ 30 \<le> v" using that by auto
    have "formatMemory v = Sprintf_f 2 (of_int v / 2 ^ 20) @ ''Mi''"
      using c that(1) by (simp only: formatMemory_unfold q if_True if_False)
    also have "Sprintf_f 2 (of_int v / 2 ^ 20) = two_decimals (round_half_even (of_int v / 2 ^ 20 * 100))"
      using assms(1) by (intro Sprintf_f_2) simp
    finally show ?thesis by simp
  qed
  have 5: "formatMemory 512 = ''512B''"
    using 2 [of 512] by (simp add: show_digits.simps digit_char_def)
  have "\<exists>n. formatMemory (2 ^ 30) = two_decimals n @ ''Gi''
          \<and> \<bar>of_int n / 100 - of_int (2 ^ 30) / 2 ^ 30\<bar> < (1 / 100 :: rat)
          \<and> ((2 ^ 30 :: int) < 2 ^ 53 \<longrightarrow> n = round_half_even (of_int (2 ^ 30) * 100 / 2 ^ 30))"
    by (rule formatMemory_Gi) simp_all
  then have 6: "formatMemory (2 ^ 30) = ''1.00Gi''"
    by (auto simp: two_decimals_def show_digits.simps digit_char_def)
  show ?thesis
    using 1 2 [of v] 3 4 5 6 formatMemory_Gi [OF _ assms(2)] by blast
qed

theorem formatMemory_cases_witness:
  "(0::int) \<le> 1536 \<and> (1536::int) < 2 ^ 63 \<and> formatMemory 1536 = ''1.50Ki''
   \<and> formatMemory 0 = ''0'' \<and> formatMemory 1023 = ''1023B''"
proof -
  have d: "two_decimals 150 = ''1.50''" "show_digits 1023 = ''1023''"
    by (simp_all add: two_decimals_def show_digits.simps digit_char_def)
  have r: "round_half_even (1536 * 100 / 2 ^ 10) = 150"
    by (simp add: round_half_even_def)
  have "formatMemory 1536 = ''1.50Ki''"
    using formatMemory_cases [of 1536] by (simp add: d r)
  moreover have "formatMemory 0 = ''0''"
    using formatMemory_cases [of 0] by simp
  moreover have "formatMemory 1023 = ''1023B''"
    using formatMemory_cases [of 1023] by (simp add: d)
  ultimately show ?thesis by simp
qed


section \<open>The rounding of percentages\<close>

lemma f64_round_pos:
  assumes "0 < x"
  shows "0 < f64_round x"
proof -
  have "x - \<bar>x\<bar> / 2 ^ 53 \<le> f64_round x"
    using f64_round_rel_error [of x] by linarith
  moreover have "x - \<bar>x\<bar> / 2 ^ 53 = x * (1 - 1 / 2 ^ 53)"
    using assms by (simp add: algebra_simps)
  moreover have "0 < x * (1 - 1 / 2 ^ 53)"
    using assms by (intro mult_pos_pos) simp_all
  ultimately show ?thesis by linarith
qed

lemma rel_error_divide:
  fixes a b u t :: rat
  assumes A: "\<bar>a - u\<bar> \<le> e * \<bar>u\<bar>" and B: "\<bar>b - t\<bar> \<le> e * \<bar>t\<bar>"
    and e: "0 \<le> e" "e < 1" and t: "t \<noteq> 0"
  shows "\<bar>a / b - u / t\<bar> \<le> (2 * e / (1 - e)) * \<bar>u / t\<bar>"
proof -
  have tpos: "0 < \<bar>t\<bar>" using t by simp
  have "\<bar>t\<bar> - e * \<bar>t\<bar> \<le> \<bar>b\<bar>" using B by linarith
  then have blow: "(1 - e) * \<bar>t\<bar> \<le> \<bar>b\<bar>" by (simp add: algebra_simps)
  have "0 < (1 - e) * \<bar>t\<bar>" using e tpos by (intro mult_pos_pos) simp_all
  with blow have bpos: "0 < \<bar>b\<bar>" by linarith
  then have b0: "b \<noteq> 0" by auto
  have "a / b - u / t = ((a - u) * t - u * (b - t)) / (b * t)"
    using b0 t by (simp add: field_simps)
  then have eq: "\<bar>a / b - u / t\<bar> = \<bar>(a - u) * t - u * (b - t)\<bar> / (\<bar>b\<bar> * \<bar>t\<bar>)"
    by (simp add: abs_mult)
  have "\<bar>(a - u) * t - u * (b - t)\<bar> \<le> \<bar>a - u\<bar> * \<bar>t\<bar> + \<bar>u\<bar> * \<bar>b - t\<bar>"
    by (metis abs_mult abs_triangle_ineq4)
  also have "\<dots> \<le> (e * \<bar>u\<bar>) * \<bar>t\<bar> + \<bar>u\<bar> * (e * \<bar>t\<bar>)"
    using A B by (intro add_mono mult_right_mono mult_left_mono) simp_all
  also have "\<dots> = 2 * e * \<bar>u\<bar> * \<bar>t\<bar>" by simp
  finally have num: "\<bar>(a - u) * t - u * (b - t)\<bar> \<le> 2 * e * \<bar>u\<bar> * \<bar>t\<bar>" .
  have den: "(1 - e) * \<bar>t\<bar> * \<bar>t\<bar> \<le> \<bar>b\<bar> * \<bar>t\<bar>"
    using blow tpos by (intro mult_right_mono) simp_all
  have denpos: "0 < (1 - e) * \<bar>t\<bar> * \<bar>t\<bar>"
    using e tpos by (intro mult_pos_pos) simp_all
  have "\<bar>a / b - u / t\<bar> \<le> (2 * e * \<bar>u\<bar> * \<bar>t\<bar>) / ((1 - e) * \<bar>t\<bar> * \<bar>t\<bar>)"
    unfolding eq using num den denpos e
    by (intro frac_le) (simp_all add: mult_nonneg_nonneg)
  also have "\<dots> = (2 * e / (1 - e)) * \<bar>u / t\<bar>"
    using tpos e by (simp add: abs_divide field_simps)
  finally show ?thesis .
qed

subsection \<open>The computed percentage\<close>

lemma percent_float64_sign:
  assumes "0 < reference"
  shows "percent_float64 usage reference < 0 \<longleftrightarrow> usage < 0"
proof -
  define a where "a = f64_round (of_int usage)"
  define b where "b = f64_round (of_int reference)"
  define c where "c = f64_round (a / b)"
  have p: "percent_float64 usage reference = f64_round (c * 100)"
    by (simp add: percent_float64_def f64_mul_def f64_div_def float64_of_int_def a_def b_def c_def)
  have b: "0 < b" using assms by (simp add: b_def f64_round_pos)
  show ?thesis
  proof (cases "usage < 0")
    case True
    then have "a < 0" by (simp add: a_def f64_round_neg)
    with b have "a / b < 0" by (simp add: divide_neg_pos)
    then have "c < 0" by (simp add: c_def f64_round_neg)
    then have "c * 100 < 0" by simp
    then have "f64_round (c * 100) < 0" by (rule f64_round_neg)
    with True show ?thesis by (simp add: p)
  next
    case False
    then have "0 \<le> a" by (simp add: a_def f64_round_nonneg)
    with b have "0 \<le> a / b" by simp
    then have "0 \<le> c" by (simp add: c_def f64_round_nonneg)
    then have "0 \<le> f64_round (c * 100)" by (intro f64_round_nonneg) simp
    with False show ?thesis by (simp add: p)
  qed
qed

lemma percent_float64_error:
  assumes "0 < reference"
  shows "\<bar>percent_float64 usage reference - 100 * of_int usage / of_int reference\<bar>
           \<le> \<bar>100 * of_int usage / of_int reference\<bar> / 2 ^ 50"
proof -
  define e :: rat where "e = 1 / 2 ^ 53"
  define a where "a = f64_round (of_int usage)"
  define b where "b = f64_round (of_int reference)"
  define c where "c = f64_round (a / b)"
  define r :: rat where "r = of_int usage / of_int reference"
  have p: "percent_float64 usage reference = f64_round (c * 100)"
    by (simp add: percent_float64_def f64_mul_def f64_div_def float64_of_int_def a_def b_def c_def)
  have e: "0 \<le> e" "e < 1" by (simp_all add: e_def)
  have A: "\<bar>a - of_int usage\<bar> \<le> e * \<bar>of_int usage\<bar>"
    unfolding a_def e_def by (rule f64_round_rel)
  have B: "\<bar>b - of_int reference\<bar> \<le> e * \<bar>of_int reference\<bar>"
    unfolding b_def e_def by (rule f64_round_rel)
  have t: "(of_int reference :: rat) \<noteq> 0" using assms by simp
  have 1: "\<bar>a / b - r\<bar> \<le> (2 * e / (1 - e)) * \<bar>r\<bar>"
    unfolding r_def using A B e t by (rule rel_error_divide)
  have 2: "\<bar>c - a / b\<bar> \<le> e * \<bar>a / b\<bar>"
    unfolding c_def e_def by (rule f64_round_rel)
  have 3: "\<bar>c - r\<bar> \<le> (e + 2 * e / (1 - e) + e * (2 * e / (1 - e))) * \<bar>r\<bar>"
    using 2 1 e(1) by (rule rel_error_trans)
  have "\<bar>c * 100 - r * 100\<bar> = \<bar>c - r\<bar> * 100"
    by (simp add: abs_if algebra_simps)
  also have "\<dots> \<le> (e + 2 * e / (1 - e) + e * (2 * e / (1 - e))) * \<bar>r\<bar> * 100"
    using 3 by simp
  also have "\<dots> = (e + 2 * e / (1 - e) + e * (2 * e / (1 - e))) * \<bar>r * 100\<bar>"
    by (simp add: abs_mult)
  finally have 4: "\<bar>c * 100 - r * 100\<bar>
      \<le> (e + 2 * e / (1 - e) + e * (2 * e / (1 - e))) * \<bar>r * 100\<bar>" .
  have 5: "\<bar>f64_round (c * 100) - c * 100\<bar> \<le> e * \<bar>c * 100\<bar>"
    unfolding e_def by (rule f64_round_rel)
  have 6: "\<bar>f64_round (c * 100) - r * 100\<bar>
      \<le> (e + (e + 2 * e / (1 - e) + e * (2 * e / (1 - e)))
           + e * (e + 2 * e / (1 - e) + e * (2 * e / (1 - e)))) * \<bar>r * 100\<bar>"
    using 5 4 e(1) by (rule rel_error_trans)
  have "e + (e + 2 * e / (1 - e) + e * (2 * e / (1 - e)))
           + e * (e + 2 * e / (1 - e) + e * (2 * e / (1 - e))) \<le> 1 / 2 ^ 50"
    by (simp add: e_def)
  then have "(e + (e + 2 * e / (1 - e) + e * (2 * e / (1 - e)))
           + e * (e + 2 * e / (1 - e) + e * (2 * e / (1 - e)))) * \<bar>r * 100\<bar>
           \<le> (1 / 2 ^ 50) * \<bar>r * 100\<bar>"
    by (intro mult_right_mono) simp_all
  with 6 have "\<bar>f64_round (c * 100) - r * 100\<bar> \<le> (1 / 2 ^ 50) * \<bar>r * 100\<bar>"
    by linarith
  then show ?thesis
    by (simp add: p r_def algebra_simps)
qed

lemma Sprintf_f_0_rendered: "Sprintf_f 0 p @ ''%'' = rendered_percent p"
  by (simp add: Sprintf_f_def rendered_percent_def)

lemma ScaledValue_positive:
  assumes "0 < x" and "x \<le> 2 ^ 63 - 1"
  shows "ScaledValue x = \<lceil>x\<rceil>" and "0 < \<lceil>x\<rceil>"
proof -
  show pos: "0 < \<lceil>x\<rceil>" using assms(1) by (simp only: zero_less_ceiling)
  have "x \<le> of_int (2 ^ 63 - 1)" using assms(2) by simp
  then have "\<lceil>x\<rceil> \<le> 2 ^ 63 - 1" by (simp only: ceiling_le_iff)
  then show "ScaledValue x = \<lceil>x\<rceil>"
    using pos assms(1) by (simp add: ScaledValue_def int64_range_def round_away_def)
qed

text \<open>
  Claim C2, as amended. For a node whose selected reference total is positive and fits
  an \<open>int64\<close> once scaled (to milli-cores for CPU, to bytes for memory),
  \<open>CalculateNodePercentages\<close> computes \<open>usage / total * 100\<close> in double precision, the total
  being the quantity rounded up to a whole number of milli-cores or bytes (the result is
  within a relative error of \<open>2^-50\<close> of the exact quotient, and negative exactly when the
  usage is), and renders its magnitude rounded to the nearest integer, an exact half
  going to the even neighbour, without decimals, with the sign in front and \<open>%\<close> behind.
\<close>

theorem percentage_rounds_half_to_even:
  "(0 < index_zero (reference_totals node showCapacity) ResourceCPU
    \<and> index_zero (reference_totals node showCapacity) ResourceCPU * 1000 \<le> 2 ^ 63 - 1 \<longrightarrow>
      fst (CalculateNodePercentages node cpuUsageMilli memoryUsageBytes showCapacity) =
        rendered_percent (percent_float64 cpuUsageMilli
          \<lceil>index_zero (reference_totals node showCapacity) ResourceCPU * 1000\<rceil>))
   \<and> (0 < index_zero (reference_totals node showCapacity) ResourceMemory
      \<and> index_zero (reference_totals node showCapacity) ResourceMemory \<le> 2 ^ 63 - 1 \<longrightarrow>
      snd (CalculateNodePercentages node cpuUsageMilli memoryUsageBytes showCapacity) =
        rendered_percent (percent_float64 memoryUsageBytes
          \<lceil>index_zero (reference_totals node showCapacity) ResourceMemory\<rceil>))
   \<and> (0 < reference \<longrightarrow>
        \<bar>percent_float64 usage reference - 100 * of_int usage / of_int reference\<bar>
          \<le> \<bar>100 * of_int usage / of_int reference\<bar> / 2 ^ 50
        \<and> (percent_float64 usage reference < 0 \<longleftrightarrow> usage < 0))
   \<and> \<bar>of_int (round_half_even \<bar>p\<bar>) - \<bar>p\<bar>\<bar> \<le> 1 / 2
   \<and> (\<bar>of_int (round_half_even \<bar>p\<bar>) - \<bar>p\<bar>\<bar> = 1 / 2 \<longrightarrow> even (round_half_even \<bar>p\<bar>))"
proof -
  have cpu: "fst (CalculateNodePercentages node cpuUsageMilli memoryUsageBytes showCapacity) =
        rendered_percent (percent_float64 cpuUsageMilli
          \<lceil>index_zero (reference_totals node showCapacity) ResourceCPU * 1000\<rceil>)"
    if "0 < index_zero (reference_totals node showCapacity) ResourceCPU"
      and "index_zero (reference_totals node showCapacity) ResourceCPU * 1000 \<le> 2 ^ 63 - 1"
  proof -
    have "0 < index_zero (reference_totals node showCapacity) ResourceCPU * 1000"
      using that(1) by simp
    from ScaledValue_positive [OF this that(2)] that(1) show ?thesis
      by (simp add: CalculateNodePercentages_def reference_totals_def Let_def percent_float64_def
            Sprintf_f_0_rendered Quantity_MilliValue_def Quantity_IsZero_def split: if_splits)
  qed
  have mem: "snd (CalculateNodePercentages node cpuUsageMilli memoryUsageBytes showCapacity) =
        rendered_percent (percent_float64 memoryUsageBytes
          \<lceil>index_zero (reference_totals node showCapacity) ResourceMemory\<rceil>)"
    if "0 < index_zero (reference_totals node showCapacity) ResourceMemory"
      and "index_zero (reference_totals node showCapacity) ResourceMemory \<le> 2 ^ 63 - 1"
    using ScaledValue_positive [OF that] that(1)
    by (simp add: CalculateNodePercentages_def reference_totals_def Let_def percent_float64_def
          Sprintf_f_0_rendered Quantity_Value_def Quantity_IsZero_def split: if_splits)
  show ?thesis
    using cpu mem percent_float64_error [of reference usage]
      percent_float64_sign [of reference usage]
      round_half_even_error [of "\<bar>p\<bar>"] round_half_even_tie [of "\<bar>p\<bar>"]
    by blast
qed

theorem percentage_rounds_half_to_even_witness:
  "0 < index_zero (reference_totals example_node False) ResourceCPU
   \<and> index_zero (reference_totals example_node False) ResourceCPU * 1000 \<le> 2 ^ 63 - 1
   \<and> 0 < index_zero (reference_totals example_node False) ResourceMemory
   \<and> index_zero (reference_totals example_node False) ResourceMemory \<le> 2 ^ 63 - 1
   \<and> CalculateNodePercentages example_node 2000 (4 * 2 ^ 30) False = (''50%'', ''50%'')
   \<and> percent_float64 500 4000 = 25 / 2
   \<and> rendered_percent (percent_float64 500 4000) = ''12%''"
proof -
  have t: "index_zero (reference_totals example_node False) ResourceCPU = 4"
    "index_zero (reference_totals example_node False) ResourceMemory = 8589934592"
    by (simp_all add: index_zero_def lookup_ok_def reference_totals_def example_node_def
          ResourceCPU_def ResourceMemory_def)
  have p: "percent_float64 2000 4000 = 50" "percent_float64 4294967296 8589934592 = 50"
    "percent_float64 500 4000 = 25 / 2"
    by code_simp+
  have r: "rendered_percent 50 = ''50%''" "rendered_percent (25 / 2) = ''12%''"
    by code_simp+
  from percentage_rounds_half_to_even
         [where node = example_node and showCapacity = False and cpuUsageMilli = 2000
            and memoryUsageBytes = "4 * 2 ^ 30" and reference = 4000 and usage = 500
            and p = "25 / 2"]
  have "fst (CalculateNodePercentages example_node 2000 (4 * 2 ^ 30) False) = ''50%''"
    and "snd (CalculateNodePercentages example_node 2000 (4 * 2 ^ 30) False) = ''50%''"
    by (simp_all add: t p r)
  then have "CalculateNodePercentages example_node 2000 (4 * 2 ^ 30) False = (''50%'', ''50%'')"
    by (simp add: prod_eq_iff)
  then show ?thesis
    by (simp add: t p r)
qed

text \<open>
  Claim C2 as stated fails on an exact half: 500 milli-cores of 4000 is 12.5 percent,
  which rounding half away from zero renders as \<open>13%\<close>, while the code (and its own test)
  gives \<open>12%\<close>. It also fails for a reference total that is non-zero but negative, where
  the code returns \<open>0%\<close> without dividing, and for a total whose value in milli-cores
  does not fit an \<open>int64\<close>: with 9223372036854776 cores allocatable and half of them
  used the code prints \<open>0%\<close>.
\<close>

theorem percentage_half_is_not_rounded_away:
  "fst (CalculateNodePercentages example_node 500 (2 ^ 30) False) = ''12%''
   \<and> Sprintf_d (round_half_away (100 * 500 / 4000)) @ ''%'' = ''13%''
   \<and> index_zero (reference_totals example_node_negative False) ResourceCPU \<noteq> 0
   \<and> fst (CalculateNodePercentages example_node_negative 500 (2 ^ 30) False) = ''0%''
   \<and> index_zero (reference_totals example_node_huge False) ResourceCPU = 9223372036854776
   \<and> fst (CalculateNodePercentages example_node_huge 4611686018427388000 0 False) = ''0%''"
  by code_simp

end
